theory Spec2Isabelle
  imports Complex_Main "HOL-Library.Word"
begin

section \<open>Image conversion pipeline of minipix (lib/imageConversion.ts)\<close>

text \<open>
  The development embeds the conversion module of the repository: the canvas capability
  probe, the quality fraction, the boost transform, colour reduction, PNG conversion and
  the orchestration function \<open>convertImage\<close>.

  Conventions of the embedding.
  \<^item> A JavaScript \<open>number\<close> is a value of the type \<open>jsnum\<close>: \<open>NaN\<close>, the two infinities,
    or a finite real. Every arithmetic operation rounds its exact result to the nearest
    IEEE double, ties to the even significand, and overflows to an infinity, as the
    language prescribes.
  \<^item> A \<open>Uint8ClampedArray\<close> is a list of bytes (\<open>8 word\<close>); a store into it converts
    the number by the clamped conversion of the language (\<open>toUint8Clamp\<close>), a store past
    the end is ignored and a read past the end yields \<open>undefined\<close>, which is \<open>NaN\<close> in
    arithmetic.
  \<^item> Counts chosen on a slider (colour count) are \<open>int\<close>; sizes are \<open>nat\<close>.
  \<^item> Exceptions are values of the type \<open>error\<close>, results are \<open>error + 'a\<close>.
\<close>

type_synonym byte = "8 word"
type_synonym buffer = "byte list"

datatype error =
    LoadFailed
  | NoContext
  | ZeroDimensions
  | GetImageDataFailed
  | EncodeFailed
  | TypeError

subsection \<open>Canvas capability probe\<close>

text \<open>
  The host is what the module reads from its environment: whether \<open>document\<close> is
  defined, and what \<open>toDataURL\<close> of a fresh canvas answers for a mime type. The module
  state is the map \<open>canvasEncodeSupport\<close>; \<open>probes\<close> is a log of the host queries made
  so far (it is not in the source; it records each call of \<open>toDataURL\<close>).
\<close>

record Host =
  document_defined :: bool
  toDataURL :: "string \<Rightarrow> string"

record ProbeState =
  canvasEncodeSupport :: "string \<rightharpoonup> bool"
  probes :: "string list"

definition initialProbeState :: ProbeState where
  "initialProbeState = \<lparr>canvasEncodeSupport = Map.empty, probes = []\<rparr>"

definition startsWith :: "string \<Rightarrow> string \<Rightarrow> bool" where
  "startsWith s p = (take (length p) s = p)"

definition supportsCanvasEncoding :: "Host \<Rightarrow> string \<Rightarrow> ProbeState \<Rightarrow> bool \<times> ProbeState" where
  "supportsCanvasEncoding host mimeType st =
     (if \<not> document_defined host then (True, st)
      else (case canvasEncodeSupport st mimeType of
              Some cached \<Rightarrow> (cached, st)
            | None \<Rightarrow>
                (let dataUrl = toDataURL host mimeType;
                     supported = startsWith dataUrl (''data:'' @ mimeType)
                 in (supported,
                     st\<lparr>canvasEncodeSupport := (canvasEncodeSupport st)(mimeType \<mapsto> supported),
                        probes := probes st @ [mimeType]\<rparr>))))"

record OutputFormatSupport =
  jpeg :: bool
  webp :: bool
  png :: bool
  gif :: bool

definition getOutputFormatSupport :: "Host \<Rightarrow> ProbeState \<Rightarrow> OutputFormatSupport \<times> ProbeState" where
  "getOutputFormatSupport host st =
     (case supportsCanvasEncoding host ''image/jpeg'' st of
        (j, st1) \<Rightarrow>
          (case supportsCanvasEncoding host ''image/webp'' st1 of
             (w, st2) \<Rightarrow> (\<lparr>jpeg = j, webp = w, png = True, gif = True\<rparr>, st2)))"



text \<open>Three hosts used as concrete inputs: one without \<open>document\<close>, one whose canvas
  only ever answers with a PNG data URL, one whose canvas encodes every mime type.\<close>

definition host_no_document :: Host where
  "host_no_document = \<lparr>document_defined = False, toDataURL = (\<lambda>m. ''data:image/png;base64,'')\<rparr>"

definition host_png_only :: Host where
  "host_png_only = \<lparr>document_defined = True, toDataURL = (\<lambda>m. ''data:image/png;base64,'')\<rparr>"

definition host_all_formats :: Host where
  "host_all_formats = \<lparr>document_defined = True, toDataURL = (\<lambda>m. ''data:'' @ m @ '';base64,'')\<rparr>"

subsection \<open>Numbers\<close>

text \<open>
  The numbers of the language. A finite number is carried as the real it denotes; the
  model has one zero, which is sound here because the module never divides by a computed
  value and stores both zeros as the byte 0. \<open>round_even\<close> rounds to the nearest integer,
  a tie to the even one. \<open>to_double\<close> rounds a real to the nearest double: the unit in
  the last place of \<open>x\<close> is two to the power \<open>\<lfloor>log\<^sub>2 \<bar>x\<bar>\<rfloor> - 52\<close>, and never below
  two to the \<open>-1074\<close> (the subnormal range); a rounded magnitude of two to the 1024 or
  more is an infinity.
\<close>

datatype jsnum = NaN | PInf | NInf | Fin real

definition round_even :: "real \<Rightarrow> int" where
  "round_even x =
     (let f = \<lfloor>x\<rfloor> in
      if x - of_int f < 1 / 2 then f
      else if 1 / 2 < x - of_int f then f + 1
      else if even f then f else f + 1)"

definition to_double :: "real \<Rightarrow> jsnum" where
  "to_double x =
     (if x = 0 then Fin 0
      else (let u = 2 powr of_int (max \<lfloor>log 2 \<bar>x\<bar>\<rfloor> (- 1022) - 52);
                y = of_int (round_even (x / u)) * u
            in if 2 ^ 1024 \<le> \<bar>y\<bar> then (if 0 < x then PInf else NInf) else Fin y))"

text \<open>
  Addition, subtraction, multiplication and division of two finite numbers round the
  exact result; the other cases are those of IEEE 754. \<open>Math.min\<close> and \<open>Math.max\<close>
  return \<open>NaN\<close> when an argument is \<open>NaN\<close>.
\<close>

fun js_neg :: "jsnum \<Rightarrow> jsnum" where
  "js_neg NaN = NaN"
| "js_neg PInf = NInf"
| "js_neg NInf = PInf"
| "js_neg (Fin x) = Fin (- x)"

fun js_add :: "jsnum \<Rightarrow> jsnum \<Rightarrow> jsnum" where
  "js_add (Fin x) (Fin y) = to_double (x + y)"
| "js_add NaN b = NaN"
| "js_add a NaN = NaN"
| "js_add PInf NInf = NaN"
| "js_add NInf PInf = NaN"
| "js_add PInf b = PInf"
| "js_add a PInf = PInf"
| "js_add NInf b = NInf"
| "js_add a NInf = NInf"

definition js_sub :: "jsnum \<Rightarrow> jsnum \<Rightarrow> jsnum" where
  "js_sub a b = js_add a (js_neg b)"

fun sign_of :: "jsnum \<Rightarrow> real" where
  "sign_of NaN = 0"
| "sign_of PInf = 1"
| "sign_of NInf = - 1"
| "sign_of (Fin x) = sgn x"

definition inf_of_sign :: "real \<Rightarrow> jsnum" where
  "inf_of_sign s = (if 0 < s then PInf else if s < 0 then NInf else NaN)"

fun js_mul :: "jsnum \<Rightarrow> jsnum \<Rightarrow> jsnum" where
  "js_mul (Fin x) (Fin y) = to_double (x * y)"
| "js_mul NaN b = NaN"
| "js_mul a NaN = NaN"
| "js_mul a b = inf_of_sign (sign_of a * sign_of b)"

fun js_div :: "jsnum \<Rightarrow> jsnum \<Rightarrow> jsnum" where
  "js_div (Fin x) (Fin y) = (if y = 0 then inf_of_sign (sgn x) else to_double (x / y))"
| "js_div NaN b = NaN"
| "js_div a NaN = NaN"
| "js_div (Fin x) b = Fin 0"
| "js_div a (Fin y) = inf_of_sign (sign_of a * (if y = 0 then 1 else sgn y))"
| "js_div a b = NaN"

fun js_max :: "jsnum \<Rightarrow> jsnum \<Rightarrow> jsnum" where
  "js_max (Fin x) (Fin y) = Fin (max x y)"
| "js_max NaN b = NaN"
| "js_max a NaN = NaN"
| "js_max PInf b = PInf"
| "js_max a PInf = PInf"
| "js_max NInf b = b"
| "js_max a NInf = a"

fun js_min :: "jsnum \<Rightarrow> jsnum \<Rightarrow> jsnum" where
  "js_min (Fin x) (Fin y) = Fin (min x y)"
| "js_min NaN b = NaN"
| "js_min a NaN = NaN"
| "js_min NInf b = NInf"
| "js_min a NInf = NInf"
| "js_min PInf b = b"
| "js_min a PInf = a"

text \<open>
  \<open>2 ** e\<close>. The language fixes the result for an exponent that is \<open>NaN\<close>, infinite or
  zero and leaves the accuracy of the other results to the engine; \<open>approx\<close> is the
  engine's result for a finite exponent other than zero.
\<close>

definition js_pow2 :: "(real \<Rightarrow> jsnum) \<Rightarrow> jsnum \<Rightarrow> jsnum" where
  "js_pow2 approx e =
     (case e of
        NaN \<Rightarrow> NaN
      | PInf \<Rightarrow> PInf
      | NInf \<Rightarrow> Fin 0
      | Fin x \<Rightarrow> if x = 0 then Fin 1 else approx x)"

text \<open>
  The conversion of a store into a \<open>Uint8ClampedArray\<close>: \<open>NaN\<close> becomes 0, the value is
  clamped to the byte range and rounded to the nearest integer, a tie to the even one.
\<close>

fun toUint8Clamp :: "jsnum \<Rightarrow> byte" where
  "toUint8Clamp NaN = 0"
| "toUint8Clamp PInf = 255"
| "toUint8Clamp NInf = 0"
| "toUint8Clamp (Fin x) =
     (if x \<le> 0 then 0 else if 255 \<le> x then 255 else word_of_int (round_even x))"

definition byteval :: "byte \<Rightarrow> jsnum" where
  "byteval w = Fin (real (unat w))"

text \<open>
  For the error analysis: \<open>near a x d\<close> says that \<open>a\<close> is finite and within \<open>d\<close> of the
  real \<open>x\<close>; \<open>eps\<close> bounds the rounding error of one operation on values below two to
  the 20.
\<close>

definition near :: "jsnum \<Rightarrow> real \<Rightarrow> real \<Rightarrow> bool" where
  "near a x d = (\<exists>y. a = Fin y \<and> \<bar>y - x\<bar> \<le> d)"

definition eps :: real where
  "eps = 1 / 2 ^ 33"

subsection \<open>Quality fraction\<close>

definition qualityToFloat :: "jsnum \<Rightarrow> jsnum" where
  "qualityToFloat quality = js_min (Fin 1) (js_max (Fin 0) (js_div quality (Fin 100)))"

subsection \<open>Boost\<close>

record BoostSettings =
  exposure :: jsnum
  saturation :: jsnum
  contrast :: jsnum
  brightness :: jsnum

definition defaultBoost :: BoostSettings where
  "defaultBoost = \<lparr>exposure = Fin 0, saturation = Fin 1, contrast = Fin 1, brightness = Fin 0\<rparr>"

definition clampByte :: "jsnum \<Rightarrow> jsnum" where
  "clampByte v = js_min (Fin 255) (js_max (Fin 0) v)"

text \<open>
  The arithmetic of one iteration of the loop of \<open>applyBoost\<close>, before the stores. The
  literals \<open>0.2126\<close>, \<open>0.7152\<close> and \<open>0.0722\<close> are the doubles nearest to them; \<open>pow2\<close> is
  the engine's exponentiation for \<open>2 ** boost.exposure\<close>.
\<close>

definition boostPixel ::
  "(real \<Rightarrow> jsnum) \<Rightarrow> BoostSettings \<Rightarrow> jsnum \<Rightarrow> jsnum \<Rightarrow> jsnum \<Rightarrow> jsnum \<times> jsnum \<times> jsnum" where
  "boostPixel pow2 boost dr dg db =
     (let exposureFactor = js_pow2 pow2 (exposure boost);
          r = js_mul dr exposureFactor;
          g = js_mul dg exposureFactor;
          b = js_mul db exposureFactor;
          lum = js_add (js_add (js_mul (to_double 0.2126) r) (js_mul (to_double 0.7152) g))
                  (js_mul (to_double 0.0722) b);
          r = js_add lum (js_mul (js_sub r lum) (saturation boost));
          g = js_add lum (js_mul (js_sub g lum) (saturation boost));
          b = js_add lum (js_mul (js_sub b lum) (saturation boost));
          r = js_add (js_add (js_mul (js_sub r (Fin 128)) (contrast boost)) (Fin 128))
                (brightness boost);
          g = js_add (js_add (js_mul (js_sub g (Fin 128)) (contrast boost)) (Fin 128))
                (brightness boost);
          b = js_add (js_add (js_mul (js_sub b (Fin 128)) (contrast boost)) (Fin 128))
                (brightness boost)
      in (clampByte r, clampByte g, clampByte b))"

text \<open>
  One iteration at index \<open>i < length data\<close>. A read past the end is \<open>undefined\<close> and
  makes the product \<open>NaN\<close>; a store past the end is ignored, as \<open>list_update\<close> does.
\<close>

definition readnum :: "buffer \<Rightarrow> nat \<Rightarrow> jsnum" where
  "readnum data k = (if k < length data then byteval (data ! k) else NaN)"

definition applyBoost_step :: "(real \<Rightarrow> jsnum) \<Rightarrow> BoostSettings \<Rightarrow> buffer \<Rightarrow> nat \<Rightarrow> buffer" where
  "applyBoost_step pow2 boost data i =
     (case boostPixel pow2 boost (readnum data i) (readnum data (i + 1)) (readnum data (i + 2)) of
        (r, g, b) \<Rightarrow>
          data[i := toUint8Clamp r, i + 1 := toUint8Clamp g, i + 2 := toUint8Clamp b])"

lemma length_applyBoost_step [simp]:
  "length (applyBoost_step pow2 boost data i) = length data"
  by (simp add: applyBoost_step_def split: prod.split)

function applyBoost_loop :: "(real \<Rightarrow> jsnum) \<Rightarrow> BoostSettings \<Rightarrow> buffer \<Rightarrow> nat \<Rightarrow> buffer" where
  "applyBoost_loop pow2 boost data i =
     (if i < length data
      then applyBoost_loop pow2 boost (applyBoost_step pow2 boost data i) (i + 4)
      else data)"
  by pat_completeness auto
termination
  by (relation "measure (\<lambda>(pow2, boost, data, i). length data - i)") auto

declare applyBoost_loop.simps [simp del]

text \<open>The loop of \<open>applyBoost\<close> over \<open>imageData.data\<close>, from index 0.\<close>

definition applyBoost_pixels :: "(real \<Rightarrow> jsnum) \<Rightarrow> BoostSettings \<Rightarrow> buffer \<Rightarrow> buffer" where
  "applyBoost_pixels pow2 boost data = applyBoost_loop pow2 boost data 0"

text \<open>The three colour bytes stored for the pixel that starts at index \<open>k\<close>.\<close>

definition boosted :: "(real \<Rightarrow> jsnum) \<Rightarrow> BoostSettings \<Rightarrow> buffer \<Rightarrow> nat \<Rightarrow> byte \<times> byte \<times> byte" where
  "boosted pow2 boost data k =
     (case boostPixel pow2 boost (readnum data k) (readnum data (k + 1)) (readnum data (k + 2)) of
        (r, g, b) \<Rightarrow> (toUint8Clamp r, toUint8Clamp g, toUint8Clamp b))"

text \<open>
  The 2D context of the canvas: its bitmap (RGBA bytes, row-major) and whether the host
  lets the module read it back. Every \<open>getImageData\<close> of the module asks for the whole
  canvas, so it returns the bitmap.
\<close>

record Context2D =
  ctx_bitmap :: buffer
  ctx_readable :: bool

record ImageData =
  id_data :: buffer
  id_width :: nat
  id_height :: nat

definition getImageData :: "Context2D \<Rightarrow> nat \<Rightarrow> nat \<Rightarrow> error + ImageData" where
  "getImageData ctx width height =
     (if ctx_readable ctx
      then Inr \<lparr>id_data = ctx_bitmap ctx, id_width = width, id_height = height\<rparr>
      else Inl GetImageDataFailed)"

definition putImageData :: "Context2D \<Rightarrow> ImageData \<Rightarrow> Context2D" where
  "putImageData ctx imageData = ctx\<lparr>ctx_bitmap := id_data imageData\<rparr>"

definition applyBoost ::
  "(real \<Rightarrow> jsnum) \<Rightarrow> Context2D \<Rightarrow> nat \<Rightarrow> nat \<Rightarrow> BoostSettings \<Rightarrow> error + Context2D" where
  "applyBoost pow2 ctx width height boost =
     (case getImageData ctx width height of
        Inl e \<Rightarrow> Inl e
      | Inr imageData \<Rightarrow>
          Inr (putImageData ctx
                 (imageData\<lparr>id_data := applyBoost_pixels pow2 boost (id_data imageData)\<rparr>)))"

text \<open>
  The boost as the specification words it, in the arithmetic of the language: the value
  times two to the exposure, a linear blend between the Rec. 709 luma and the value
  weighted by the saturation, a linear blend around the midpoint 128 weighted by the
  contrast plus the brightness, clamped to the byte range.
\<close>

definition luma709 :: "jsnum \<Rightarrow> jsnum \<Rightarrow> jsnum \<Rightarrow> jsnum" where
  "luma709 r g b =
     js_add (js_add (js_mul (to_double 0.2126) r) (js_mul (to_double 0.7152) g))
       (js_mul (to_double 0.0722) b)"

definition blend :: "jsnum \<Rightarrow> jsnum \<Rightarrow> jsnum \<Rightarrow> jsnum" where
  "blend a b t = js_add a (js_mul (js_sub b a) t)"

definition boost_channel_spec ::
  "(real \<Rightarrow> jsnum) \<Rightarrow> BoostSettings \<Rightarrow> jsnum \<times> jsnum \<times> jsnum \<Rightarrow> jsnum \<Rightarrow> jsnum" where
  "boost_channel_spec pow2 s px v =
     (case px of (r, g, b) \<Rightarrow>
        (let k = js_pow2 pow2 (exposure s);
             lum = luma709 (js_mul r k) (js_mul g k) (js_mul b k);
             sat = blend lum (js_mul v k) (saturation s);
             con = js_add (blend (Fin 128) sat (contrast s)) (brightness s)
         in js_min (Fin 255) (js_max (Fin 0) con)))"

text \<open>One channel of \<open>boostPixel\<close> as a function of the luma and the scaled value.\<close>

definition boostChannel :: "BoostSettings \<Rightarrow> jsnum \<Rightarrow> jsnum \<Rightarrow> jsnum" where
  "boostChannel boost lum v =
     clampByte
       (js_add
          (js_add
             (js_mul (js_sub (js_add lum (js_mul (js_sub v lum) (saturation boost))) (Fin 128))
                (contrast boost))
             (Fin 128))
          (brightness boost))"

subsection \<open>Imported functions\<close>

text \<open>
  The module imports \<open>quantizePalette\<close>, \<open>applyPaletteMapping\<close> and
  \<open>convertGifWithOptions\<close> from lib/gifEncoder, \<open>applyBackground\<close> and \<open>parseHexColor\<close>
  from lib/imageUtils and \<open>UPNG.encode\<close> from the PNG codec. They are parameters of the
  functions below, gathered in one record. A palette is a list of colours, each a list
  of three or four channel bytes; an indexed frame is a list of palette indices.
  \<open>applyBackground\<close> mutates its buffer in the source and returns the new contents here.
\<close>

datatype PaletteFormat = rgb565 | rgba4444

record QuantizeOptions =
  qo_format :: PaletteFormat
  qo_oneBitAlpha :: "bool option"
  qo_clearAlpha :: bool

type_synonym palette = "byte list list"

datatype GifDitheringMode = Dithering_none | Dithering_floyd_steinberg

record GifConversionOptions =
  gif_colorCount :: int
  gif_dithering :: GifDitheringMode
  gif_preserveAlpha :: bool
  gif_backgroundColor :: string
  gif_loopCount :: int

record PngConversionOptions =
  png_colorCount :: int
  png_reduceColors :: bool
  png_preserveAlpha :: bool
  png_backgroundColor :: string
  png_interlaced :: bool

record 'blob Imports =
  imp_quantizePalette :: "buffer \<Rightarrow> int \<Rightarrow> QuantizeOptions \<Rightarrow> palette"
  imp_applyPaletteMapping :: "buffer \<Rightarrow> palette \<Rightarrow> PaletteFormat \<Rightarrow> nat list"
  imp_convertGifWithOptions :: "ImageData \<Rightarrow> GifConversionOptions \<Rightarrow> 'blob"
  imp_parseHexColor :: "string \<Rightarrow> byte \<times> byte \<times> byte"
  imp_applyBackground :: "buffer \<Rightarrow> byte \<times> byte \<times> byte \<Rightarrow> buffer"
  imp_UPNG_encode :: "buffer \<Rightarrow> nat \<Rightarrow> nat \<Rightarrow> int \<Rightarrow> bool \<Rightarrow> 'blob"

text \<open>
  Modelled from the spec: \<open>ensureColorCount\<close> of lib/imageUtils, which is not among the
  sources. The specification says that a colour count outside the range from 2 to 256
  is clamped to that range.
\<close>

definition ensureColorCount :: "int \<Rightarrow> int" where
  "ensureColorCount colorCount = min 256 (max 2 colorCount)"

subsection \<open>Colour reduction and PNG conversion\<close>

text \<open>
  A read past the end of an array is \<open>undefined\<close>; stored into a
  \<open>Uint8ClampedArray\<close> it becomes 0.
\<close>

definition channel :: "byte list \<Rightarrow> nat \<Rightarrow> byte" where
  "channel xs k = (if k < length xs then xs ! k else 0)"

text \<open>
  The loop of \<open>reduceColors\<close>: \<open>i\<close> counts the indices consumed so far. An index with
  no palette entry makes \<open>paletteColor\<close> undefined, and reading its component raises a
  \<open>TypeError\<close>.
\<close>

fun reduceColors_loop ::
  "palette \<Rightarrow> buffer \<Rightarrow> bool \<Rightarrow> nat list \<Rightarrow> nat \<Rightarrow> buffer \<Rightarrow> error + buffer" where
  "reduceColors_loop palette source preserveAlpha [] i result = Inr result"
| "reduceColors_loop palette source preserveAlpha (ix # rest) i result =
     (if ix < length palette then
        (let paletteColor = palette ! ix;
             dest = i * 4;
             result = result[dest := channel paletteColor 0];
             result = result[dest + 1 := channel paletteColor 1];
             result = result[dest + 2 := channel paletteColor 2];
             result = result[dest + 3 :=
                        (if preserveAlpha \<and> 3 < length paletteColor then paletteColor ! 3
                         else if preserveAlpha then channel source (dest + 3)
                         else 255)]
         in reduceColors_loop palette source preserveAlpha rest (i + 1) result)
      else Inl TypeError)"

definition reduceColors :: "'blob Imports \<Rightarrow> buffer \<Rightarrow> int \<Rightarrow> bool \<Rightarrow> error + buffer" where
  "reduceColors lib source targetColors preserveAlpha =
     (let palette = imp_quantizePalette lib source targetColors
                      \<lparr>qo_format = (if preserveAlpha then rgba4444 else rgb565),
                       qo_oneBitAlpha = (if preserveAlpha then None else Some True),
                       qo_clearAlpha = True\<rparr>;
          indices = imp_applyPaletteMapping lib source palette
                      (if preserveAlpha then rgba4444 else rgb565)
      in reduceColors_loop palette source preserveAlpha indices 0
           (replicate (length source) 0))"

definition convertPng :: "'blob Imports \<Rightarrow> ImageData \<Rightarrow> PngConversionOptions \<Rightarrow> error + 'blob" where
  "convertPng lib imageData options =
     (let data = id_data imageData;
          background = imp_parseHexColor lib (png_backgroundColor options);
          data = (if \<not> png_preserveAlpha options
                  then imp_applyBackground lib data background else data);
          shouldReduce = (png_reduceColors options \<and> png_colorCount options < 256)
      in case (if shouldReduce
               then reduceColors lib data (ensureColorCount (png_colorCount options))
                      (png_preserveAlpha options)
               else Inr data) of
           Inl e \<Rightarrow> Inl e
         | Inr processed \<Rightarrow>
             (let colorCount = (if png_reduceColors options
                                then ensureColorCount (png_colorCount options) else 0)
              in Inr (imp_UPNG_encode lib processed (id_width imageData)
                        (id_height imageData) colorCount (png_interlaced options))))"

subsection \<open>Orchestration\<close>

text \<open>
  What \<open>convertImage\<close> takes from the host: the decoder (\<open>loadImageSource\<close>, built on
  \<open>createImageBitmap\<close> or an image element), whether the canvas yields a 2D context,
  whether its bitmap can be read back, the lossy encoder behind \<open>canvas.toBlob\<close>
  (\<open>None\<close> is the null result), \<open>URL.createObjectURL\<close> and the exponentiation of the
  engine. A decoded image carries its size and the pixels that drawing it at that size
  leaves on the canvas.
\<close>

record Loaded =
  ld_pixels :: buffer
  ld_width :: nat
  ld_height :: nat

record ('file, 'blob) Env =
  env_loadImageSource :: "'file \<Rightarrow> error + Loaded"
  env_context2d :: bool
  env_readable :: bool
  env_toBlob :: "buffer \<Rightarrow> string \<Rightarrow> jsnum \<Rightarrow> 'blob option"
  env_createObjectURL :: "'blob \<Rightarrow> string"
  env_pow2 :: "real \<Rightarrow> jsnum"

datatype ConversionConfig =
    Jpeg jsnum
  | Webp jsnum
  | Png PngConversionOptions
  | Gif GifConversionOptions

record ConvertImageOptions =
  opt_boost :: "BoostSettings option"

record 'blob ConversionResult =
  cr_blob :: 'blob
  cr_url :: string
  cr_width :: nat
  cr_height :: nat

text \<open>The calls a conversion makes, in order: the second component of its result. The
  call of the canvas encoder carries the mime type and the quality it is given.\<close>

datatype call =
    Call_drawOnCanvas
  | Call_getImageData
  | Call_convertGifWithOptions
  | Call_convertPng
  | Call_applyBoost
  | Call_encodeCanvas string jsnum
  | Call_release

definition drawOnCanvas :: "('file, 'blob) Env \<Rightarrow> Loaded \<Rightarrow> nat \<Rightarrow> nat \<Rightarrow> error + Context2D" where
  "drawOnCanvas env loaded width height =
     (if \<not> env_context2d env then Inl NoContext
      else Inr \<lparr>ctx_bitmap = ld_pixels loaded, ctx_readable = env_readable env\<rparr>)"

definition encodeCanvas ::
  "('file, 'blob) Env \<Rightarrow> Context2D \<Rightarrow> string \<Rightarrow> jsnum \<Rightarrow> (error + 'blob) \<times> call list" where
  "encodeCanvas env ctx mimeType quality =
     ((case env_toBlob env (ctx_bitmap ctx) mimeType quality of
         Some result \<Rightarrow> Inr result
       | None \<Rightarrow> Inl EncodeFailed),
      [Call_encodeCanvas mimeType quality])"

definition conversionResult :: "('file, 'blob) Env \<Rightarrow> 'blob \<Rightarrow> nat \<Rightarrow> nat \<Rightarrow> 'blob ConversionResult" where
  "conversionResult env blob width height =
     \<lparr>cr_blob = blob, cr_url = env_createObjectURL env blob, cr_width = width,
      cr_height = height\<rparr>"

text \<open>The JPEG and WebP branch of \<open>convertImage\<close>: a failure of the boost is caught and
  the canvas is encoded as it is.\<close>

definition convertImage_lossy ::
  "('file, 'blob) Env \<Rightarrow> Context2D \<Rightarrow> string \<Rightarrow> jsnum \<Rightarrow> ConvertImageOptions option
     \<Rightarrow> nat \<Rightarrow> nat \<Rightarrow> (error + 'blob ConversionResult) \<times> call list" where
  "convertImage_lossy env ctx mimeType quality options width height =
     (let qualityValue = qualityToFloat quality;
          boost = (case options of
                     None \<Rightarrow> defaultBoost
                   | Some opts \<Rightarrow> (case opt_boost opts of None \<Rightarrow> defaultBoost | Some b \<Rightarrow> b));
          ctx = (case applyBoost (env_pow2 env) ctx width height boost of
                   Inl e \<Rightarrow> ctx
                 | Inr ctx' \<Rightarrow> ctx')
      in case encodeCanvas env ctx mimeType qualityValue of
           (Inl e, encoded) \<Rightarrow> (Inl e, [Call_drawOnCanvas, Call_applyBoost] @ encoded)
         | (Inr blob, encoded) \<Rightarrow>
             (Inr (conversionResult env blob width height),
              [Call_drawOnCanvas, Call_applyBoost] @ encoded))"

text \<open>The body of the \<open>try\<close> block of \<open>convertImage\<close>.\<close>

definition convertImage_try ::
  "('file, 'blob) Env \<Rightarrow> 'blob Imports \<Rightarrow> Loaded \<Rightarrow> ConversionConfig
     \<Rightarrow> ConvertImageOptions option \<Rightarrow> (error + 'blob ConversionResult) \<times> call list" where
  "convertImage_try env lib loaded config options =
     (let width = ld_width loaded; height = ld_height loaded
      in case drawOnCanvas env loaded width height of
           Inl e \<Rightarrow> (Inl e, [Call_drawOnCanvas])
         | Inr ctx \<Rightarrow>
             if width = 0 \<or> height = 0 then (Inl ZeroDimensions, [Call_drawOnCanvas])
             else (case config of
                 Gif gifOptions \<Rightarrow>
                   (case getImageData ctx width height of
                      Inl e \<Rightarrow> (Inl e, [Call_drawOnCanvas, Call_getImageData])
                    | Inr imageData \<Rightarrow>
                        (Inr (conversionResult env
                                (imp_convertGifWithOptions lib imageData gifOptions)
                                width height),
                         [Call_drawOnCanvas, Call_getImageData, Call_convertGifWithOptions]))
               | Png pngOptions \<Rightarrow>
                   (case getImageData ctx width height of
                      Inl e \<Rightarrow> (Inl e, [Call_drawOnCanvas, Call_getImageData])
                    | Inr imageData \<Rightarrow>
                        (case convertPng lib imageData pngOptions of
                           Inl e \<Rightarrow>
                             (Inl e, [Call_drawOnCanvas, Call_getImageData, Call_convertPng])
                         | Inr blob \<Rightarrow>
                             (Inr (conversionResult env blob width height),
                              [Call_drawOnCanvas, Call_getImageData, Call_convertPng])))
               | Jpeg quality \<Rightarrow>
                   convertImage_lossy env ctx ''image/jpeg'' quality options width height
               | Webp quality \<Rightarrow>
                   convertImage_lossy env ctx ''image/webp'' quality options width height))"

text \<open>\<open>convertImage\<close>: decode, run the \<open>try\<close> block, and release the source in the
  \<open>finally\<close> block whatever the outcome.\<close>

definition convertImage ::
  "('file, 'blob) Env \<Rightarrow> 'blob Imports \<Rightarrow> 'file \<Rightarrow> ConversionConfig
     \<Rightarrow> ConvertImageOptions option \<Rightarrow> (error + 'blob ConversionResult) \<times> call list" where
  "convertImage env lib file config options =
     (case env_loadImageSource env file of
        Inl e \<Rightarrow> (Inl e, [])
      | Inr loaded \<Rightarrow>
          (case convertImage_try env lib loaded config options of
             (outcome, trace) \<Rightarrow> (outcome, trace @ [Call_release])))"

subsection \<open>Colour quantizer\<close>

text \<open>
  Modelled from the spec: \<open>quantizePalette\<close> of lib/gifEncoder, which is not among the
  sources. The model follows section 4.1 of the specification step by step: a histogram
  of packed colours in ascending key order, the palette of the distinct colours when
  they are few enough, and otherwise box splitting along the channel of greatest range
  with the frequency-weighted average of each box as its representative. A buffer whose
  length is not a multiple of four is refused (section 7). Where the specification
  leaves a choice open the model fixes it: the box split next is the first one of
  greatest pixel count among those with at least two colours; a box is cut at its
  weighted median, with both halves non-empty; ties between channels go to red, then
  green, then blue, then alpha; averages round down; with \<open>oneBitAlpha\<close> the two alpha
  levels are separated at 128 and occupy one more bit of the key.
\<close>

datatype quantize_error = MalformedPixelData

type_synonym rgba = "nat \<times> nat \<times> nat \<times> nat"

fun pixels_of :: "buffer \<Rightarrow> rgba list" where
  "pixels_of (r # g # b # a # rest) = (unat r, unat g, unat b, unat a) # pixels_of rest"
| "pixels_of rest = []"

definition pack :: "QuantizeOptions \<Rightarrow> rgba \<Rightarrow> nat" where
  "pack opts px =
     (case px of (r, g, b, a) \<Rightarrow>
        (case qo_format opts of
           rgb565 \<Rightarrow>
             (r div 8) * 2048 + (g div 4) * 32 + b div 8
               + (if qo_oneBitAlpha opts = Some True \<and> 128 \<le> a then 65536 else 0)
         | rgba4444 \<Rightarrow> (r div 16) * 4096 + (g div 16) * 256 + (b div 16) * 16 + a div 16))"

definition unpack :: "QuantizeOptions \<Rightarrow> nat \<Rightarrow> rgba" where
  "unpack opts key =
     (case qo_format opts of
        rgb565 \<Rightarrow>
          ((key div 2048) mod 32 * 8, (key div 32) mod 64 * 4, key mod 32 * 8,
           (if qo_oneBitAlpha opts = Some True \<and> key div 65536 = 0 then 0 else 255))
      | rgba4444 \<Rightarrow>
          ((key div 4096) mod 16 * 16, (key div 256) mod 16 * 16, (key div 16) mod 16 * 16,
           key mod 16 * 16))"

fun hist_add :: "nat \<Rightarrow> (nat \<times> nat) list \<Rightarrow> (nat \<times> nat) list" where
  "hist_add key [] = [(key, 1)]"
| "hist_add key ((k, n) # rest) =
     (if key = k then (k, n + 1) # rest
      else if key < k then (key, 1) # (k, n) # rest
      else (k, n) # hist_add key rest)"

definition histogram :: "QuantizeOptions \<Rightarrow> rgba list \<Rightarrow> (nat \<times> nat) list" where
  "histogram opts pxs = fold (\<lambda>px h. hist_add (pack opts px) h) pxs []"

type_synonym box = "(rgba \<times> nat) list"

definition axis_value :: "nat \<Rightarrow> rgba \<Rightarrow> nat" where
  "axis_value axis px =
     (case px of (r, g, b, a) \<Rightarrow>
        if axis = 0 then r else if axis = 1 then g else if axis = 2 then b else a)"

definition axis_range :: "box \<Rightarrow> nat \<Rightarrow> nat" where
  "axis_range bx axis =
     (case map (\<lambda>(px, n). axis_value axis px) bx of
        [] \<Rightarrow> 0
      | v # vs \<Rightarrow> fold max vs v - fold min vs v)"

definition widest_axis :: "box \<Rightarrow> nat" where
  "widest_axis bx =
     fold (\<lambda>axis best. if axis_range bx best < axis_range bx axis then axis else best)
       [1, 2, 3] 0"

definition population :: "box \<Rightarrow> nat" where
  "population bx = sum_list (map snd bx)"

fun insert_by :: "nat \<Rightarrow> rgba \<times> nat \<Rightarrow> box \<Rightarrow> box" where
  "insert_by axis e [] = [e]"
| "insert_by axis e (x # xs) =
     (if axis_value axis (fst e) \<le> axis_value axis (fst x) then e # x # xs
      else x # insert_by axis e xs)"

definition sort_by :: "nat \<Rightarrow> box \<Rightarrow> box" where
  "sort_by axis bx = foldr (insert_by axis) bx []"

text \<open>The number of leading entries that hold at least half of the pixels.\<close>

fun median_cut :: "nat \<Rightarrow> nat \<Rightarrow> box \<Rightarrow> nat" where
  "median_cut half seen [] = 0"
| "median_cut half seen ((px, n) # rest) =
     (if half \<le> seen + n then 1 else 1 + median_cut half (seen + n) rest)"

definition split_box :: "box \<Rightarrow> box \<times> box" where
  "split_box bx =
     (let sorted_bx = sort_by (widest_axis bx) bx;
          cut = median_cut ((population bx + 1) div 2) 0 sorted_bx;
          cut = max 1 (min cut (length sorted_bx - 1))
      in (take cut sorted_bx, drop cut sorted_bx))"

definition pick_box :: "box list \<Rightarrow> nat option" where
  "pick_box boxes =
     (case filter (\<lambda>k. 2 \<le> length (boxes ! k)) [0..<length boxes] of
        [] \<Rightarrow> None
      | k # ks \<Rightarrow>
          Some (fold (\<lambda>j best. if population (boxes ! best) < population (boxes ! j)
                               then j else best) ks k))"

fun split_boxes :: "nat \<Rightarrow> box list \<Rightarrow> box list" where
  "split_boxes 0 boxes = boxes"
| "split_boxes (Suc n) boxes =
     (case pick_box boxes of
        None \<Rightarrow> boxes
      | Some k \<Rightarrow>
          (case split_box (boxes ! k) of
             (lo, hi) \<Rightarrow> split_boxes n (take k boxes @ [lo, hi] @ drop (Suc k) boxes)))"

definition representative :: "box \<Rightarrow> rgba" where
  "representative bx =
     (let total = population bx;
          avg = (\<lambda>axis. sum_list (map (\<lambda>(px, n). axis_value axis px * n) bx) div total)
      in (avg 0, avg 1, avg 2, avg 3))"

definition palette_entry :: "QuantizeOptions \<Rightarrow> rgba \<Rightarrow> byte list" where
  "palette_entry opts px =
     (case px of (r, g, b, a) \<Rightarrow>
        if qo_format opts = rgb565 \<and> qo_oneBitAlpha opts \<noteq> Some True
        then [of_nat r, of_nat g, of_nat b]
        else [of_nat r, of_nat g, of_nat b, if qo_clearAlpha opts then 255 else of_nat a])"

definition quantizePalette ::
  "buffer \<Rightarrow> int \<Rightarrow> QuantizeOptions \<Rightarrow> quantize_error + palette" where
  "quantizePalette pixels targetColors opts =
     (if length pixels mod 4 \<noteq> 0 then Inl MalformedPixelData
      else
        (let hist = histogram opts (pixels_of pixels)
         in if int (length hist) \<le> targetColors
            then Inr (map (\<lambda>(key, n). palette_entry opts (unpack opts key)) hist)
            else
              (let members = map (\<lambda>(key, n). (unpack opts key, n)) hist;
                   boxes = split_boxes (nat targetColors - 1) [members]
               in Inr (map (\<lambda>bx. palette_entry opts (representative bx)) boxes))))"

subsection \<open>Concrete inputs\<close>

text \<open>
  A small stand-in for the imported functions and for the host, used where a theorem is
  applied to a concrete input: the palette is black and white, every pixel is mapped to
  white, the background is left as it is, and the encoders return the frame they are
  given. The decoder of the host yields an image of width 0 and height 7; a second host
  differs only in its decoder, which yields one pixel.
\<close>

definition example_lib :: "buffer Imports" where
  "example_lib =
     \<lparr>imp_quantizePalette = (\<lambda>source targetColors opts. [[0, 0, 0, 255], [255, 255, 255, 255]]),
      imp_applyPaletteMapping = (\<lambda>source palette fmt. replicate (length source div 4) 1),
      imp_convertGifWithOptions = (\<lambda>imageData opts. id_data imageData),
      imp_parseHexColor = (\<lambda>hex. (255, 255, 255)),
      imp_applyBackground = (\<lambda>data background. data),
      imp_UPNG_encode = (\<lambda>frame width height cnum interlace. frame)\<rparr>"

definition example_env :: "(unit, buffer) Env" where
  "example_env =
     \<lparr>env_loadImageSource = (\<lambda>file. Inr \<lparr>ld_pixels = [], ld_width = 0, ld_height = 7\<rparr>),
      env_context2d = True,
      env_readable = True,
      env_toBlob = (\<lambda>bitmap mimeType quality. Some bitmap),
      env_createObjectURL = (\<lambda>blob. ''blob:1''),
      env_pow2 = (\<lambda>x. to_double (2 powr x))\<rparr>"

definition example_png_options :: PngConversionOptions where
  "example_png_options =
     \<lparr>png_colorCount = 300, png_reduceColors = True, png_preserveAlpha = True,
      png_backgroundColor = ''#ffffff'', png_interlaced = False\<rparr>"


text \<open>An engine whose exponentiation is correctly rounded.\<close>

definition example_pow2 :: "real \<Rightarrow> jsnum" where
  "example_pow2 x = to_double (2 powr x)"

text \<open>Settings with the saturation at the lower end of its slider, the others at their
  defaults.\<close>

definition example_boost :: BoostSettings where
  "example_boost = \<lparr>exposure = Fin 0, saturation = Fin 0, contrast = Fin 1, brightness = Fin 0\<rparr>"

section \<open>Properties\<close>

subsection \<open>The capability probe\<close>



lemma supportsCanvasEncoding_miss:
  assumes "document_defined host" and "canvasEncodeSupport st mimeType = None"
  shows "supportsCanvasEncoding host mimeType st =
           (startsWith (toDataURL host mimeType) (''data:'' @ mimeType),
            st\<lparr>canvasEncodeSupport :=
                  (canvasEncodeSupport st)
                    (mimeType \<mapsto> startsWith (toDataURL host mimeType) (''data:'' @ mimeType)),
               probes := probes st @ [mimeType]\<rparr>)"
  using assms by (simp add: supportsCanvasEncoding_def Let_def)







lemma supportsCanvasEncoding_document_gone:
  "fst (supportsCanvasEncoding host_png_only ''image/webp'' initialProbeState) = False
   \<and> fst (supportsCanvasEncoding host_no_document ''image/webp''
            (snd (supportsCanvasEncoding host_png_only ''image/webp'' initialProbeState))) = True"
  by (simp add: supportsCanvasEncoding_def initialProbeState_def host_png_only_def
        host_no_document_def startsWith_def Let_def)

subsection \<open>Rounding\<close>

lemma eps_bounds: "0 < eps" "eps \<le> 1 / 1000000000"
  by (simp_all add: eps_def)

lemma round_even_near: "\<bar>of_int (round_even t) - t\<bar> \<le> 1 / 2"
proof -
  have "of_int \<lfloor>t\<rfloor> \<le> t" "t < of_int \<lfloor>t\<rfloor> + 1" by linarith+
  then show ?thesis by (auto simp: round_even_def Let_def abs_le_iff)
qed

lemma round_even_of_int: "round_even (of_int n) = n"
  by (simp add: round_even_def)

lemma to_double_near:
  assumes "\<bar>x\<bar> \<le> 2 ^ 20"
  shows "near (to_double x) x eps"
proof (cases "x = 0")
  case True
  then show ?thesis using eps_bounds(1) by (simp add: to_double_def near_def)
next
  case False
  define k where "k = max \<lfloor>log 2 \<bar>x\<bar>\<rfloor> (- 1022) - 52"
  define u :: real where "u = 2 powr of_int k"
  define y :: real where "y = of_int (round_even (x / u)) * u"
  have upos: "0 < u" by (simp add: u_def)
  have "(2 :: real) powr 20 = 2 ^ 20" by (simp add: powr_numeral)
  with assms have "\<bar>x\<bar> \<le> 2 powr 20" by simp
  with False have "log 2 \<bar>x\<bar> \<le> 20" by (subst log_le_iff) simp_all
  then have "\<lfloor>log 2 \<bar>x\<bar>\<rfloor> \<le> 20" by linarith
  then have k: "k \<le> - 32" by (simp add: k_def)
  then have "u \<le> 2 powr of_int (- 32)" unfolding u_def by (intro powr_mono) simp_all
  also have "\<dots> = 1 / 2 ^ 32" by (simp add: powr_minus_divide)
  finally have u: "u \<le> 1 / 2 ^ 32" .
  have "y - x = (of_int (round_even (x / u)) - x / u) * u"
    using upos by (simp add: y_def field_simps)
  then have "\<bar>y - x\<bar> = \<bar>of_int (round_even (x / u)) - x / u\<bar> * u"
    using upos by (simp add: abs_mult)
  also have "\<dots> \<le> (1 / 2) * u"
    using round_even_near [of "x / u"] upos by (intro mult_right_mono) simp_all
  also have "\<dots> \<le> eps" using u by (simp add: eps_def)
  finally have err: "\<bar>y - x\<bar> \<le> eps" .
  have "\<bar>y\<bar> \<le> \<bar>x\<bar> + \<bar>y - x\<bar>" by linarith
  also have "\<dots> \<le> 2 ^ 20 + 1" using assms err eps_bounds by (intro add_mono) linarith+
  also have "(2 ^ 20 + 1 :: real) < 2 ^ 21" by simp
  also have "(2 ^ 21 :: real) \<le> 2 ^ 1024" by (intro power_increasing) simp_all
  finally have "\<not> 2 ^ 1024 \<le> \<bar>y\<bar>" by simp
  then have "to_double x = Fin y"
    using False by (simp add: to_double_def Let_def y_def u_def k_def)
  with err show ?thesis by (auto simp: near_def)
qed

lemma near_mono: "near a x d \<Longrightarrow> d \<le> d' \<Longrightarrow> near a x d'"
  by (auto simp: near_def)

lemma near_Fin: "near (Fin x) x 0"
  by (simp add: near_def)

lemma near_add:
  assumes "near a x d" and "near b y e" and "\<bar>x\<bar> + d + \<bar>y\<bar> + e \<le> 2 ^ 20"
  shows "near (js_add a b) (x + y) (d + e + eps)"
proof -
  from assms obtain x' y' where a: "a = Fin x'" "\<bar>x' - x\<bar> \<le> d"
    and b: "b = Fin y'" "\<bar>y' - y\<bar> \<le> e"
    by (auto simp: near_def)
  have "\<bar>x' + y'\<bar> \<le> \<bar>x\<bar> + d + \<bar>y\<bar> + e" using a b by linarith
  with assms(3) have "\<bar>x' + y'\<bar> \<le> 2 ^ 20" by linarith
  from to_double_near [OF this] obtain z
    where z: "to_double (x' + y') = Fin z" "\<bar>z - (x' + y')\<bar> \<le> eps"
    by (auto simp: near_def)
  have "\<bar>z - (x + y)\<bar> \<le> d + e + eps" using z a b by linarith
  with z a b show ?thesis by (auto simp: near_def)
qed

lemma near_neg: "near b y e \<Longrightarrow> near (js_neg b) (- y) e"
  by (auto simp: near_def)

lemma near_sub:
  assumes "near a x d" and "near b y e" and "\<bar>x\<bar> + d + \<bar>y\<bar> + e \<le> 2 ^ 20"
  shows "near (js_sub a b) (x - y) (d + e + eps)"
  using near_add [OF assms(1) near_neg [OF assms(2)]] assms(3) by (simp add: js_sub_def)

lemma near_mul:
  assumes "near a x d" and "near b y e" and "(\<bar>x\<bar> + d) * (\<bar>y\<bar> + e) \<le> 2 ^ 20"
  shows "near (js_mul a b) (x * y) (d * (\<bar>y\<bar> + e) + \<bar>x\<bar> * e + eps)"
proof -
  from assms obtain x' y' where a: "a = Fin x'" "\<bar>x' - x\<bar> \<le> d"
    and b: "b = Fin y'" "\<bar>y' - y\<bar> \<le> e"
    by (auto simp: near_def)
  have d0: "0 \<le> d" and e0: "0 \<le> e" using a b by linarith+
  have x': "\<bar>x'\<bar> \<le> \<bar>x\<bar> + d" and y': "\<bar>y'\<bar> \<le> \<bar>y\<bar> + e" using a b by linarith+
  have "\<bar>x' * y'\<bar> = \<bar>x'\<bar> * \<bar>y'\<bar>" by (simp add: abs_mult)
  also have "\<dots> \<le> (\<bar>x\<bar> + d) * (\<bar>y\<bar> + e)" using x' y' by (intro mult_mono) simp_all
  finally have "\<bar>x' * y'\<bar> \<le> 2 ^ 20" using assms(3) by linarith
  from to_double_near [OF this] obtain z
    where z: "to_double (x' * y') = Fin z" "\<bar>z - x' * y'\<bar> \<le> eps"
    by (auto simp: near_def)
  have "x' * y' - x * y = (x' - x) * y' + x * (y' - y)" by (simp add: algebra_simps)
  then have "\<bar>x' * y' - x * y\<bar> \<le> \<bar>(x' - x) * y'\<bar> + \<bar>x * (y' - y)\<bar>" by linarith
  also have "\<bar>(x' - x) * y'\<bar> \<le> d * (\<bar>y\<bar> + e)"
    unfolding abs_mult using a y' by (intro mult_mono) simp_all
  also have "\<bar>x * (y' - y)\<bar> \<le> \<bar>x\<bar> * e"
    unfolding abs_mult using b by (intro mult_left_mono) simp_all
  finally have "\<bar>x' * y' - x * y\<bar> \<le> d * (\<bar>y\<bar> + e) + \<bar>x\<bar> * e" by linarith
  with z have "\<bar>z - x * y\<bar> \<le> d * (\<bar>y\<bar> + e) + \<bar>x\<bar> * e + eps" by linarith
  with z a b show ?thesis by (auto simp: near_def)
qed

lemma round_even_unique:
  assumes "\<bar>v - of_int m\<bar> < 1 / 2"
  shows "round_even v = m"
proof (cases "of_int m \<le> v")
  case True
  with assms have "\<lfloor>v\<rfloor> = m" by (intro floor_unique) linarith+
  with assms True show ?thesis by (simp add: round_even_def Let_def)
next
  case False
  with assms have f: "\<lfloor>v\<rfloor> = m - 1" by (intro floor_unique) (simp, linarith)+
  with assms False show ?thesis by (simp add: round_even_def Let_def)
qed

lemma round_even_bound:
  assumes "\<bar>t\<bar> \<le> of_int b"
  shows "\<bar>round_even t\<bar> \<le> b"
proof -
  have "\<bar>of_int (round_even t) - t\<bar> \<le> 1 / 2" by (rule round_even_near)
  with assms have "\<bar>real_of_int (round_even t)\<bar> < of_int b + 1" by linarith
  then have "\<bar>real_of_int (round_even t)\<bar> < real_of_int (b + 1)" by simp
  then have "real_of_int \<bar>round_even t\<bar> < real_of_int (b + 1)" by simp
  then have "\<bar>round_even t\<bar> < b + 1" by (simp only: of_int_less_iff)
  then show ?thesis by simp
qed

lemma to_double_at:
  fixes m :: nat
  assumes lo: "2 ^ 52 \<le> \<bar>x\<bar> * 2 ^ m" and hi: "\<bar>x\<bar> * 2 ^ m < 2 ^ 53" and m: "m \<le> 1074"
  shows "to_double x = Fin (of_int (round_even (x * 2 ^ m)) / 2 ^ m)"
proof -
  define k :: int where "k = 52 - int m"
  have x0: "x \<noteq> 0" using lo by auto
  have pk: "(2 :: real) powr of_int k = 2 ^ 52 / 2 ^ m"
    by (simp add: k_def powr_diff powr_realpow flip: powr_numeral)
  have pk1: "(2 :: real) powr (of_int k + 1) = 2 ^ 53 / 2 ^ m"
    by (simp add: k_def powr_add powr_diff powr_realpow flip: powr_numeral)
  have "2 powr of_int k \<le> \<bar>x\<bar>" using lo by (simp add: pk field_simps)
  then have l1: "of_int k \<le> log 2 \<bar>x\<bar>" using x0 by (subst le_log_iff) simp_all
  have "\<bar>x\<bar> < 2 ^ 53 / 2 ^ m" using hi by (simp add: field_simps)
  then have "\<bar>x\<bar> < 2 powr (of_int k + 1)" by (simp only: pk1)
  then have l2: "log 2 \<bar>x\<bar> < of_int k + 1" using x0 by (subst log_less_iff) simp_all
  from l1 l2 have fl: "\<lfloor>log 2 \<bar>x\<bar>\<rfloor> = k" by (intro floor_unique)
  have mx: "max k (- 1022) - 52 = - int m" using m by (simp add: k_def)
  have u: "(2 :: real) powr of_int (- int m) = 1 / 2 ^ m"
    by (simp add: powr_minus_divide powr_realpow)
  define y :: real where "y = of_int (round_even (x * 2 ^ m)) / 2 ^ m"
  have "\<bar>x * 2 ^ m\<bar> \<le> of_int (2 ^ 53)" using hi by (simp add: abs_mult)
  then have "\<bar>round_even (x * 2 ^ m)\<bar> \<le> 2 ^ 53" by (rule round_even_bound)
  then have "real_of_int \<bar>round_even (x * 2 ^ m)\<bar> \<le> real_of_int (2 ^ 53)"
    by (simp only: of_int_le_iff)
  then have num: "\<bar>real_of_int (round_even (x * 2 ^ m))\<bar> \<le> 2 ^ 53" by simp
  have den: "(1 :: real) \<le> 2 ^ m" by simp
  have "\<bar>y\<bar> = \<bar>real_of_int (round_even (x * 2 ^ m))\<bar> / 2 ^ m"
    by (simp add: y_def)
  also have "\<dots> \<le> \<bar>real_of_int (round_even (x * 2 ^ m))\<bar> / 1"
    using den by (intro divide_left_mono) simp_all
  also have "\<dots> \<le> 2 ^ 53" using num by simp
  finally have "\<bar>y\<bar> \<le> 2 ^ 53" .
  also have "(2 ^ 53 :: real) < 2 ^ 1024" by (intro power_strict_increasing) simp_all
  finally have small: "\<not> 2 ^ 1024 \<le> \<bar>y\<bar>" by simp
  show ?thesis
    using x0 small unfolding to_double_def fl mx u Let_def y_def by simp
qed


lemma js_add_commute: "js_add a b = js_add b a"
  by (cases a; cases b) (simp_all add: add.commute)


subsection \<open>The boost loop\<close>

lemma store_near:
  assumes "n \<le> 255" and "near a (real n) (1 / 4)"
  shows "toUint8Clamp (clampByte a) = of_nat n"
proof -
  from assms obtain y where a: "a = Fin y" and y: "\<bar>y - real n\<bar> \<le> 1 / 4"
    by (auto simp: near_def)
  define v where "v = min 255 (max 0 y)"
  have c: "clampByte a = Fin v" by (simp add: clampByte_def a v_def)
  have n: "0 \<le> real n" "real n \<le> 255" using assms(1) by simp_all
  have v: "\<bar>v - real n\<bar> \<le> 1 / 4" using y n unfolding v_def by linarith
  consider "v \<le> 0" | "255 \<le> v" | "0 < v" "v < 255" by linarith
  then show ?thesis
  proof cases
    case 1
    with v have "real n < 1" by linarith
    then have "n = 0" by simp
    with 1 c show ?thesis by simp
  next
    case 2
    with v have "254 < real n" by linarith
    then have "254 < n" by simp
    with assms(1) have "n = 255" by simp
    with 2 c show ?thesis by simp
  next
    case 3
    have "round_even v = int n" using v by (intro round_even_unique) simp
    with 3 c show ?thesis by simp
  qed
qed

lemma boostPixel_channels:
  "boostPixel pow2 boost dr dg db =
     (let k = js_pow2 pow2 (exposure boost);
          lum = luma709 (js_mul dr k) (js_mul dg k) (js_mul db k)
      in (boostChannel boost lum (js_mul dr k), boostChannel boost lum (js_mul dg k),
          boostChannel boost lum (js_mul db k)))"
  by (simp add: boostPixel_def boostChannel_def luma709_def Let_def)

lemma near_bound: "near a x d \<Longrightarrow> \<bar>x\<bar> + d \<le> m \<Longrightarrow> near a 0 m"
  by (auto simp: near_def)

lemma near_scaled: "n \<le> 255 \<Longrightarrow> near (js_mul (Fin (real n)) (Fin 1)) (real n) eps"
proof -
  assume "n \<le> 255"
  then have "real n \<le> 255" by simp
  then have "(\<bar>real n\<bar> + 0) * (\<bar>1\<bar> + 0) \<le> (2 ^ 20 :: real)" by simp
  from near_mul [OF near_Fin near_Fin this] show ?thesis by simp
qed

lemma sum_bound:
  fixes p q r s :: real
  shows "p \<le> 255 \<Longrightarrow> q \<le> 256 \<Longrightarrow> r \<le> 1 \<Longrightarrow> s \<le> 1 \<Longrightarrow> p + (q + r + s) \<le> 600"
  by linarith

lemma near_weighted:
  assumes "\<bar>c\<bar> \<le> 1" and "near v x eps" and "\<bar>x\<bar> \<le> 255"
  shows "near (js_mul (to_double c) v) 0 600"
proof -
  have c: "near (to_double c) c eps" using assms(1) by (intro to_double_near) simp
  have e: "0 < eps" "eps \<le> 1 / 1000000000" by (rule eps_bounds)+
  then have e1: "eps \<le> 1" by linarith
  have "(\<bar>c\<bar> + eps) * (\<bar>x\<bar> + eps) \<le> (1 + 1) * (255 + 1)"
    using assms e by (intro mult_mono) linarith+
  then have "(\<bar>c\<bar> + eps) * (\<bar>x\<bar> + eps) \<le> 2 ^ 20" by simp
  from near_mul [OF c assms(2) this]
  have n: "near (js_mul (to_double c) v) (c * x) (eps * (\<bar>x\<bar> + eps) + \<bar>c\<bar> * eps + eps)" .
  have "\<bar>c\<bar> * \<bar>x\<bar> \<le> 1 * 255" using assms by (intro mult_mono) simp_all
  then have p: "\<bar>c * x\<bar> \<le> 255" by (simp add: abs_mult)
  have "eps * (\<bar>x\<bar> + eps) \<le> 1 * (255 + 1)"
    using assms e by (intro mult_mono) linarith+
  then have q: "eps * (\<bar>x\<bar> + eps) \<le> 256" by simp
  have "\<bar>c\<bar> * eps \<le> 1 * 1" using assms e by (intro mult_mono) linarith+
  then have r: "\<bar>c\<bar> * eps \<le> 1" by simp
  from sum_bound [OF p q r e1] n show ?thesis by (rule near_bound [rotated])
qed

lemma luma_bounded:
  assumes "near r x eps" "\<bar>x\<bar> \<le> 255" "near g y eps" "\<bar>y\<bar> \<le> 255" "near b z eps" "\<bar>z\<bar> \<le> 255"
  shows "\<exists>l. luma709 r g b = Fin l \<and> \<bar>l\<bar> \<le> 2000"
proof -
  have e: "0 < eps" "eps \<le> 1 / 1000000000" by (rule eps_bounds)+
  have wr: "near (js_mul (to_double 0.2126) r) 0 600"
    using assms(1,2) by (intro near_weighted) simp_all
  have wg: "near (js_mul (to_double 0.7152) g) 0 600"
    using assms(3,4) by (intro near_weighted) simp_all
  have wb: "near (js_mul (to_double 0.0722) b) 0 600"
    using assms(5,6) by (intro near_weighted) simp_all
  have "near (js_add (js_mul (to_double 0.2126) r) (js_mul (to_double 0.7152) g)) (0 + 0)
          (600 + 600 + eps)"
    by (rule near_add [OF wr wg]) simp
  then have s1: "near (js_add (js_mul (to_double 0.2126) r) (js_mul (to_double 0.7152) g)) 0 1201"
    using e by (auto simp: near_def)
  have "near (luma709 r g b) (0 + 0) (1201 + 600 + eps)"
    unfolding luma709_def by (rule near_add [OF s1 wb]) simp
  then obtain l where "luma709 r g b = Fin l" "\<bar>l\<bar> \<le> 1201 + 600 + eps"
    by (auto simp: near_def)
  with e show ?thesis by (intro exI [of _ l]) simp
qed

lemma boostChannel_default:
  assumes v: "near v (real n) eps" and n: "n \<le> 255" and l: "\<bar>l\<bar> \<le> 2000"
  shows "toUint8Clamp (boostChannel defaultBoost (Fin l) v) = of_nat n"
proof -
  have e: "0 < eps" "eps \<le> 1 / 1000000000" by (rule eps_bounds)+
  have rn: "\<bar>real n\<bar> \<le> 255" using n by simp
  have lum: "near (Fin l) l 0" by (rule near_Fin)
  have one: "near (Fin 1) 1 0" and mid: "near (Fin 128) 128 0" and zero: "near (Fin 0) 0 0"
    by (rule near_Fin)+
  define s1 where "s1 = js_sub v (Fin l)"
  define s2 where "s2 = js_mul s1 (Fin 1)"
  define s3 where "s3 = js_add (Fin l) s2"
  define s4 where "s4 = js_sub s3 (Fin 128)"
  define s5 where "s5 = js_mul s4 (Fin 1)"
  define s6 where "s6 = js_add s5 (Fin 128)"
  define s7 where "s7 = js_add s6 (Fin 0)"
  have n1: "near s1 (real n - l) (eps + 0 + eps)"
    unfolding s1_def using rn l e by (intro near_sub [OF v lum]) simp
  have "near s2 ((real n - l) * 1) ((eps + 0 + eps) * (\<bar>1\<bar> + 0) + \<bar>real n - l\<bar> * 0 + eps)"
    unfolding s2_def using rn l e by (intro near_mul [OF n1 one]) simp
  then have n2: "near s2 (real n - l) (3 * eps)" by simp
  have "near s3 (l + (real n - l)) (0 + 3 * eps + eps)"
    unfolding s3_def using rn l e by (intro near_add [OF lum n2]) simp
  then have n3: "near s3 (real n) (4 * eps)" by simp
  have n4: "near s4 (real n - 128) (4 * eps + 0 + eps)"
    unfolding s4_def using rn e by (intro near_sub [OF n3 mid]) simp
  have "near s5 ((real n - 128) * 1)
          ((4 * eps + 0 + eps) * (\<bar>1\<bar> + 0) + \<bar>real n - 128\<bar> * 0 + eps)"
    unfolding s5_def using rn e by (intro near_mul [OF n4 one]) simp
  then have n5: "near s5 (real n - 128) (6 * eps)" by simp
  have "near s6 (real n - 128 + 128) (6 * eps + 0 + eps)"
    unfolding s6_def using rn e by (intro near_add [OF n5 mid]) simp
  then have n6: "near s6 (real n) (7 * eps)" by simp
  have "near s7 (real n + 0) (7 * eps + 0 + eps)"
    unfolding s7_def using rn e by (intro near_add [OF n6 zero]) simp
  then have "near s7 (real n) (1 / 4)" using e by (auto simp: near_def)
  from store_near [OF n this] show ?thesis
    by (simp add: boostChannel_def defaultBoost_def s7_def s6_def s5_def s4_def s3_def s2_def
          s1_def)
qed

lemma boostPixel_default:
  "boostPixel pow2 defaultBoost (byteval a) (byteval b) (byteval c) = (r, g, bl) \<Longrightarrow>
     toUint8Clamp r = a \<and> toUint8Clamp g = b \<and> toUint8Clamp bl = c"
proof -
  assume px: "boostPixel pow2 defaultBoost (byteval a) (byteval b) (byteval c) = (r, g, bl)"
  have k: "js_pow2 pow2 (exposure defaultBoost) = Fin 1"
    by (simp add: js_pow2_def defaultBoost_def)
  have ua: "unat a \<le> 255" and ub: "unat b \<le> 255" and uc: "unat c \<le> 255"
    using unsigned_less [of a, where 'a = nat] unsigned_less [of b, where 'a = nat]
      unsigned_less [of c, where 'a = nat] by simp_all
  define A where "A = js_mul (Fin (real (unat a))) (Fin 1)"
  define B where "B = js_mul (Fin (real (unat b))) (Fin 1)"
  define C where "C = js_mul (Fin (real (unat c))) (Fin 1)"
  have na: "near A (real (unat a)) eps" and nb: "near B (real (unat b)) eps"
    and nc: "near C (real (unat c)) eps"
    unfolding A_def B_def C_def by (rule near_scaled [OF ua] near_scaled [OF ub] near_scaled [OF uc])+
  have ba: "\<bar>real (unat a)\<bar> \<le> 255" and bb: "\<bar>real (unat b)\<bar> \<le> 255"
    and bc: "\<bar>real (unat c)\<bar> \<le> 255"
    using ua ub uc by (simp_all del: of_nat_unat)
  from luma_bounded [OF na ba nb bb nc bc] obtain l
    where l: "luma709 A B C = Fin l" and lb: "\<bar>l\<bar> \<le> 2000"
    by blast
  have sa: "toUint8Clamp (boostChannel defaultBoost (Fin l) A) = of_nat (unat a)"
    by (rule boostChannel_default [OF na ua lb])
  have sb: "toUint8Clamp (boostChannel defaultBoost (Fin l) B) = of_nat (unat b)"
    by (rule boostChannel_default [OF nb ub lb])
  have sc: "toUint8Clamp (boostChannel defaultBoost (Fin l) C) = of_nat (unat c)"
    by (rule boostChannel_default [OF nc uc lb])
  have "boostPixel pow2 defaultBoost (byteval a) (byteval b) (byteval c)
          = (boostChannel defaultBoost (Fin l) A, boostChannel defaultBoost (Fin l) B,
             boostChannel defaultBoost (Fin l) C)"
    unfolding boostPixel_channels k Let_def byteval_def A_def [symmetric] B_def [symmetric]
      C_def [symmetric] l ..
  with px sa sb sc show ?thesis by simp
qed

lemma length_applyBoost_loop [simp]:
  "length (applyBoost_loop pow2 boost data i) = length data"
  by (induction pow2 boost data i rule: applyBoost_loop.induct)
     (subst applyBoost_loop.simps, simp)

lemma applyBoost_step_other:
  "j < i \<or> i + 2 < j \<Longrightarrow> applyBoost_step pow2 boost data i ! j = data ! j"
  by (auto simp: applyBoost_step_def split: prod.split)

lemma applyBoost_loop_other:
  "j < i \<or> (j - i) mod 4 = 3 \<Longrightarrow> applyBoost_loop pow2 boost data i ! j = data ! j"
proof (induction pow2 boost data i rule: applyBoost_loop.induct)
  case (1 pow2 boost data i)
  show ?case
  proof (cases "i < length data")
    case False
    then show ?thesis by (subst applyBoost_loop.simps) simp
  next
    case True
    have far: "j < i \<or> i + 2 < j"
    proof (cases "j < i")
      case False
      with "1.prems" have "(j - i) mod 4 = 3" by simp
      then have "3 \<le> j - i" by (metis mod_less_eq_dividend)
      then show ?thesis by arith
    qed simp
    have nxt: "j < i + 4 \<or> (j - (i + 4)) mod 4 = 3"
    proof (cases "j < i + 4")
      case False
      then have "j - i = (j - (i + 4)) + 4" by simp
      then have "(j - i) mod 4 = (j - (i + 4)) mod 4" by (metis mod_add_self2)
      with "1.prems" False show ?thesis by simp
    qed simp
    have "applyBoost_loop pow2 boost data i ! j
            = applyBoost_loop pow2 boost (applyBoost_step pow2 boost data i) (i + 4) ! j"
      using True by (subst applyBoost_loop.simps) simp
    also have "\<dots> = applyBoost_step pow2 boost data i ! j"
      using "1.IH" [OF True nxt] .
    also have "\<dots> = data ! j"
      using far by (rule applyBoost_step_other)
    finally show ?thesis .
  qed
qed

lemma applyBoost_step_boosted:
  assumes "i + 2 < length data"
  shows "(applyBoost_step pow2 boost data i ! i, applyBoost_step pow2 boost data i ! (i + 1),
          applyBoost_step pow2 boost data i ! (i + 2)) = boosted pow2 boost data i"
  using assms by (simp add: applyBoost_step_def boosted_def case_prod_beta)

lemma readnum_step_later:
  "i + 2 < k \<Longrightarrow> readnum (applyBoost_step pow2 boost data i) k = readnum data k"
  by (simp add: readnum_def applyBoost_step_other)

lemma boosted_step_later:
  assumes "i + 2 < k"
  shows "boosted pow2 boost (applyBoost_step pow2 boost data i) k = boosted pow2 boost data k"
proof -
  have "readnum (applyBoost_step pow2 boost data i) k = readnum data k"
       "readnum (applyBoost_step pow2 boost data i) (k + 1) = readnum data (k + 1)"
       "readnum (applyBoost_step pow2 boost data i) (k + 2) = readnum data (k + 2)"
    using assms by (simp_all add: readnum_step_later del: One_nat_def)
  then show ?thesis by (simp only: boosted_def)
qed

lemma applyBoost_loop_pixel:
  "i + 4 * q + 2 < length data \<Longrightarrow>
     (applyBoost_loop pow2 boost data i ! (i + 4 * q),
      applyBoost_loop pow2 boost data i ! (i + 4 * q + 1),
      applyBoost_loop pow2 boost data i ! (i + 4 * q + 2)) = boosted pow2 boost data (i + 4 * q)"
proof (induction pow2 boost data i arbitrary: q rule: applyBoost_loop.induct)
  case (1 pow2 boost data i)
  let ?d = "applyBoost_step pow2 boost data i"
  from "1.prems" have lt: "i < length data" by simp
  have unf: "applyBoost_loop pow2 boost data i = applyBoost_loop pow2 boost ?d (i + 4)"
    using lt by (subst applyBoost_loop.simps) simp
  show ?case
  proof (cases q)
    case 0
    have "applyBoost_loop pow2 boost ?d (i + 4) ! i = ?d ! i"
         "applyBoost_loop pow2 boost ?d (i + 4) ! (i + 1) = ?d ! (i + 1)"
         "applyBoost_loop pow2 boost ?d (i + 4) ! (i + 2) = ?d ! (i + 2)"
      by (rule applyBoost_loop_other, simp)+
    moreover from "1.prems" 0 have "i + 2 < length data" by simp
    ultimately show ?thesis
      using 0 unf applyBoost_step_boosted [of i data pow2 boost] by simp
  next
    case (Suc q')
    have idx: "i + 4 * q = (i + 4) + 4 * q'" using Suc by simp
    from "1.prems" idx have "(i + 4) + 4 * q' + 2 < length ?d" by simp
    from "1.IH" [OF lt this]
    have "(applyBoost_loop pow2 boost ?d (i + 4) ! (i + 4 * q),
           applyBoost_loop pow2 boost ?d (i + 4) ! (i + 4 * q + 1),
           applyBoost_loop pow2 boost ?d (i + 4) ! (i + 4 * q + 2))
            = boosted pow2 boost ?d (i + 4 * q)"
      by (simp only: idx)
    moreover have "boosted pow2 boost ?d (i + 4 * q) = boosted pow2 boost data (i + 4 * q)"
      by (rule boosted_step_later) (simp add: Suc)
    ultimately show ?thesis using unf by simp
  qed
qed

lemma applyBoost_step_default:
  assumes "i + 2 < length data"
  shows "applyBoost_step pow2 defaultBoost data i = data"
proof -
  obtain r g b where px: "boostPixel pow2 defaultBoost (byteval (data ! i))
      (byteval (data ! (i + 1))) (byteval (data ! (i + 2))) = (r, g, b)"
    by (metis prod_cases3)
  from boostPixel_default [OF px] px assms show ?thesis
    by (simp add: applyBoost_step_def readnum_def)
qed

lemma applyBoost_loop_default:
  "(length data - i) mod 4 = 0 \<Longrightarrow> applyBoost_loop pow2 defaultBoost data i = data"
proof (induction pow2 "defaultBoost" data i rule: applyBoost_loop.induct)
  case (1 pow2 data i)
  show ?case
  proof (cases "i < length data")
    case False
    then show ?thesis by (subst applyBoost_loop.simps) simp
  next
    case True
    with "1.prems" have "4 \<le> length data - i"
      by (metis mod_less not_less zero_less_diff less_numeral_extra(3))
    then have three: "i + 2 < length data" by simp
    have step: "applyBoost_step pow2 defaultBoost data i = data"
      using three by (rule applyBoost_step_default)
    have "length data - i = (length data - (i + 4)) + 4"
      using \<open>4 \<le> length data - i\<close> by simp
    then have "(length data - (i + 4)) mod 4 = 0"
      using "1.prems" by (metis mod_add_self2)
    with "1.hyps" [OF True] step have "applyBoost_loop pow2 defaultBoost data (i + 4) = data"
      by simp
    then show ?thesis using True step by (subst applyBoost_loop.simps) simp
  qed
qed

lemma boostPixel_spec:
  "boostPixel pow2 s r g b =
     (boost_channel_spec pow2 s (r, g, b) r, boost_channel_spec pow2 s (r, g, b) g,
      boost_channel_spec pow2 s (r, g, b) b)"
proof -
  have mid: "blend (Fin 128) x c = js_add (js_mul (js_sub x (Fin 128)) c) (Fin 128)" for x c
    unfolding blend_def by (rule js_add_commute)
  show ?thesis
    by (simp add: boostPixel_def boost_channel_spec_def luma709_def clampByte_def Let_def mid)
       (simp add: blend_def)
qed

lemma boostPixel_example:
  "boostPixel pow2 \<lparr>exposure = Fin 0, saturation = Fin 0, contrast = Fin 1, brightness = Fin 0\<rparr>
     (byteval 253) (byteval 75) (byteval 1)
   = (Fin (7564639999098879 / 2 ^ 46), Fin (7564639999098879 / 2 ^ 46),
      Fin (7564639999098879 / 2 ^ 46))"
proof -
  let ?s = "\<lparr>exposure = Fin 0, saturation = Fin 0, contrast = Fin 1, brightness = Fin 0\<rparr>"
  let ?L = "7564639999098879 / 2 ^ 46 :: real"
  have c1: "to_double 0.2126 = Fin (1914930561557935 / 2 ^ 53)"
    by (subst to_double_at [where m = 55]) (simp_all add: round_even_def Let_def)
  have c2: "to_double 0.7152 = Fin (6441948906990757 / 2 ^ 53)"
    by (subst to_double_at [where m = 53]) (simp_all add: round_even_def Let_def)
  have c3: "to_double 0.0722 = Fin (5202558289538397 / 2 ^ 56)"
    by (subst to_double_at [where m = 56]) (simp_all add: round_even_def Let_def)
  have r: "js_mul (byteval 253) (Fin 1) = Fin 253"
    unfolding byteval_def by (simp, subst to_double_at [where m = 45])
      (simp_all add: round_even_def Let_def)
  have g: "js_mul (byteval 75) (Fin 1) = Fin 75"
    unfolding byteval_def by (simp, subst to_double_at [where m = 46])
      (simp_all add: round_even_def Let_def)
  have b: "js_mul (byteval 1) (Fin 1) = Fin 1"
    unfolding byteval_def by (simp, subst to_double_at [where m = 52])
      (simp_all add: round_even_def Let_def)
  have p1: "js_mul (Fin (1914930561557935 / 2 ^ 53)) (Fin 253) = Fin (7569959876158712 / 2 ^ 47)"
    by (simp, subst to_double_at [where m = 47]) (simp_all add: round_even_def Let_def)
  have p2: "js_mul (Fin (6441948906990757 / 2 ^ 53)) (Fin 75) = Fin (7549158875379793 / 2 ^ 47)"
    by (simp, subst to_double_at [where m = 47]) (simp_all add: round_even_def Let_def)
  have p3: "js_mul (Fin (5202558289538397 / 2 ^ 56)) (Fin 1) = Fin (5202558289538397 / 2 ^ 56)"
    by (simp, subst to_double_at [where m = 56]) (simp_all add: round_even_def Let_def)
  have q: "js_add (Fin (7569959876158712 / 2 ^ 47)) (Fin (7549158875379793 / 2 ^ 47))
             = Fin (7559559375769252 / 2 ^ 46)"
    by (simp, subst to_double_at [where m = 46]) (simp_all add: round_even_def Let_def)
  have lum: "js_add (Fin (7559559375769252 / 2 ^ 46)) (Fin (5202558289538397 / 2 ^ 56)) = Fin ?L"
    by (simp, subst to_double_at [where m = 46]) (simp_all add: round_even_def Let_def)
  have L: "to_double ?L = Fin ?L"
    by (subst to_double_at [where m = 46]) (simp_all add: round_even_def Let_def)
  have Lm: "to_double (?L - 128) = Fin (?L - 128)"
    by (subst to_double_at [where m = 48]) (simp_all add: round_even_def Let_def)
  have ch: "boostChannel ?s (Fin ?L) (Fin v) = Fin ?L" if "\<bar>v\<bar> \<le> 255" for v
  proof -
    have "\<bar>v + - ?L\<bar> \<le> 2 ^ 20" using that by simp
    from to_double_near [OF this] obtain d where d: "to_double (v + - ?L) = Fin d"
      by (auto simp: near_def)
    have "js_sub (Fin v) (Fin ?L) = Fin d"
      using d by (simp only: js_sub_def js_neg.simps js_add.simps)
    moreover have "js_mul (Fin d) (Fin 0) = Fin 0"
      by (simp add: to_double_def)
    moreover have "js_add (Fin ?L) (Fin 0) = Fin ?L" using L by simp
    moreover have "js_sub (Fin ?L) (Fin 128) = Fin (?L - 128)" using Lm by (simp add: js_sub_def)
    moreover have "js_mul (Fin (?L - 128)) (Fin 1) = Fin (?L - 128)" using Lm by simp
    moreover have "js_add (Fin (?L - 128)) (Fin 128) = Fin ?L" using L by simp
    ultimately show ?thesis
      by (simp only: boostChannel_def BoostSettings.simps clampByte_def js_max.simps js_min.simps)
         simp
  qed
  have k: "js_pow2 pow2 (exposure ?s) = Fin 1" by (simp add: js_pow2_def)
  have lumv: "luma709 (Fin 253) (Fin 75) (Fin 1) = Fin ?L"
    unfolding luma709_def c1 c2 c3 p1 p2 p3 q lum ..
  have ch253: "boostChannel ?s (Fin ?L) (Fin 253) = Fin ?L" by (rule ch) simp
  have ch75: "boostChannel ?s (Fin ?L) (Fin 75) = Fin ?L" by (rule ch) simp
  have ch1: "boostChannel ?s (Fin ?L) (Fin 1) = Fin ?L" by (rule ch) simp
  show ?thesis
    unfolding boostPixel_channels k Let_def r g b lumv ch253 ch75 ch1 ..
qed

lemma store_example: "toUint8Clamp (Fin (7564639999098879 / 2 ^ 46)) = 107"
proof -
  have "round_even (7564639999098879 / 2 ^ 46) = 107"
    by (intro round_even_unique) simp
  then show ?thesis by simp
qed

lemma applyBoost_readable:
  "ctx_readable ctx \<Longrightarrow>
     applyBoost pow2 ctx width height boost
       = Inr (ctx\<lparr>ctx_bitmap := applyBoost_pixels pow2 boost (ctx_bitmap ctx)\<rparr>)"
  by (simp add: applyBoost_def getImageData_def putImageData_def)

lemma applyBoost_pixels_at:
  assumes "4 * p + 2 < length data"
  shows "applyBoost_pixels pow2 boost data ! (4 * p)
           = toUint8Clamp (boost_channel_spec pow2 boost
               (byteval (data ! (4 * p)), byteval (data ! (4 * p + 1)), byteval (data ! (4 * p + 2)))
               (byteval (data ! (4 * p))))"
    and "applyBoost_pixels pow2 boost data ! (4 * p + 1)
           = toUint8Clamp (boost_channel_spec pow2 boost
               (byteval (data ! (4 * p)), byteval (data ! (4 * p + 1)), byteval (data ! (4 * p + 2)))
               (byteval (data ! (4 * p + 1))))"
    and "applyBoost_pixels pow2 boost data ! (4 * p + 2)
           = toUint8Clamp (boost_channel_spec pow2 boost
               (byteval (data ! (4 * p)), byteval (data ! (4 * p + 1)), byteval (data ! (4 * p + 2)))
               (byteval (data ! (4 * p + 2))))"
  using applyBoost_loop_pixel [of 0 p data pow2 boost] assms
  by (simp_all add: applyBoost_pixels_def boosted_def boostPixel_spec readnum_def)

lemma boost_channel_spec_example:
  "boost_channel_spec pow2 example_boost (byteval 253, byteval 75, byteval 1) (byteval 253)
     = Fin (7564639999098879 / 2 ^ 46)"
  "boost_channel_spec pow2 example_boost (byteval 253, byteval 75, byteval 1) (byteval 75)
     = Fin (7564639999098879 / 2 ^ 46)"
  "boost_channel_spec pow2 example_boost (byteval 253, byteval 75, byteval 1) (byteval 1)
     = Fin (7564639999098879 / 2 ^ 46)"
  using boostPixel_example [of pow2]
  unfolding example_boost_def [symmetric] boostPixel_spec by (simp_all only: prod.inject)

lemma store_example_numeral:
  "toUint8Clamp (Fin (7564639999098879 / 70368744177664)) = 107"
  using store_example by simp

subsection \<open>The lossy branch\<close>



subsection \<open>Colour reduction\<close>

lemma reduceColors_loop_opaque:
  assumes "\<forall>ix\<in>set ixs. ix < length palette"
  shows "\<exists>r. reduceColors_loop palette source False ixs i result = Inr r
           \<and> length r = length result
           \<and> (\<forall>j<4 * i. r ! j = result ! j)
           \<and> (\<forall>k<length ixs. 4 * (i + k) + 3 < length result \<longrightarrow>
                  r ! (4 * (i + k)) = channel (palette ! (ixs ! k)) 0
                \<and> r ! (4 * (i + k) + 1) = channel (palette ! (ixs ! k)) 1
                \<and> r ! (4 * (i + k) + 2) = channel (palette ! (ixs ! k)) 2
                \<and> r ! (4 * (i + k) + 3) = 255)"
  using assms
proof (induction ixs arbitrary: i result)
  case Nil
  then show ?case by simp
next
  case (Cons ix rest)
  let ?c = "palette ! ix"
  let ?r1 = "result[i * 4 := channel ?c 0, i * 4 + 1 := channel ?c 1,
                    i * 4 + 2 := channel ?c 2, i * 4 + 3 := 255]"
  from Cons.prems have ix: "ix < length palette" and rest: "\<forall>ix\<in>set rest. ix < length palette"
    by simp_all
  from Cons.IH [OF rest, of "i + 1" ?r1]
  obtain r where r: "reduceColors_loop palette source False rest (i + 1) ?r1 = Inr r"
    and len: "length r = length ?r1"
    and low: "\<forall>j<4 * (i + 1). r ! j = ?r1 ! j"
    and high: "\<forall>k<length rest. 4 * (i + 1 + k) + 3 < length ?r1 \<longrightarrow>
                  r ! (4 * (i + 1 + k)) = channel (palette ! (rest ! k)) 0
                \<and> r ! (4 * (i + 1 + k) + 1) = channel (palette ! (rest ! k)) 1
                \<and> r ! (4 * (i + 1 + k) + 2) = channel (palette ! (rest ! k)) 2
                \<and> r ! (4 * (i + 1 + k) + 3) = 255"
    by blast
  have run: "reduceColors_loop palette source False (ix # rest) i result = Inr r"
    using ix r by (simp add: Let_def)
  have len': "length r = length result" using len by simp
  have low': "\<forall>j<4 * i. r ! j = result ! j"
  proof (intro allI impI)
    fix j assume "j < 4 * i"
    then have "j < 4 * (i + 1)" "j \<noteq> i * 4" "j \<noteq> i * 4 + 1" "j \<noteq> i * 4 + 2" "j \<noteq> i * 4 + 3"
      by simp_all
    with low show "r ! j = result ! j" by simp
  qed
  have high': "r ! (4 * (i + k)) = channel (palette ! ((ix # rest) ! k)) 0
             \<and> r ! (4 * (i + k) + 1) = channel (palette ! ((ix # rest) ! k)) 1
             \<and> r ! (4 * (i + k) + 2) = channel (palette ! ((ix # rest) ! k)) 2
             \<and> r ! (4 * (i + k) + 3) = 255"
    if k: "k < length (ix # rest)" and fits: "4 * (i + k) + 3 < length result" for k
  proof (cases k)
    case 0
    have "r ! (4 * i) = ?r1 ! (4 * i)" "r ! (4 * i + 1) = ?r1 ! (4 * i + 1)"
         "r ! (4 * i + 2) = ?r1 ! (4 * i + 2)" "r ! (4 * i + 3) = ?r1 ! (4 * i + 3)"
      using low by simp_all
    moreover have "4 * i + 3 < length result" using fits 0 by simp
    ultimately show ?thesis using 0 by (simp add: mult.commute)
  next
    case (Suc k')
    with k have "k' < length rest" by simp
    moreover have "4 * (i + 1 + k') + 3 < length ?r1" using fits Suc by simp
    ultimately show ?thesis using high Suc by simp
  qed
  show ?case using run len' low' high' by blast
qed

lemma convertPng_reduces_composited:
  assumes "\<not> png_preserveAlpha options" and "png_reduceColors options"
    and "png_colorCount options < 256"
  shows "convertPng lib imageData options =
           (case reduceColors lib
                   (imp_applyBackground lib (id_data imageData)
                      (imp_parseHexColor lib (png_backgroundColor options)))
                   (ensureColorCount (png_colorCount options)) False of
              Inl e \<Rightarrow> Inl e
            | Inr processed \<Rightarrow>
                Inr (imp_UPNG_encode lib processed (id_width imageData) (id_height imageData)
                       (ensureColorCount (png_colorCount options)) (png_interlaced options)))"
  using assms by (simp add: convertPng_def Let_def split: sum.split)

subsection \<open>Colour count\<close>

lemma ensureColorCount_range:
  "2 \<le> ensureColorCount n" "ensureColorCount n \<le> 256"
  by (simp_all add: ensureColorCount_def)

lemma ensureColorCount_idem: "ensureColorCount (ensureColorCount n) = ensureColorCount n"
  by (simp add: ensureColorCount_def)

subsection \<open>The colour quantizer\<close>

lemma pick_box_less:
  assumes "pick_box boxes = Some k"
  shows "k < length boxes"
proof -
  have pick: "fold (\<lambda>j best. if population (boxes ! best) < population (boxes ! j)
                               then j else best) ks k0 \<in> set (k0 # ks)" for ks k0
    by (induction ks arbitrary: k0) auto
  from assms obtain k0 ks
    where cands: "filter (\<lambda>k. 2 \<le> length (boxes ! k)) [0..<length boxes] = k0 # ks"
      and k: "k = fold (\<lambda>j best. if population (boxes ! best) < population (boxes ! j)
                               then j else best) ks k0"
    by (auto simp: pick_box_def split: list.splits)
  from pick [of ks k0] k have "k \<in> set (k0 # ks)" by simp
  with cands have "k \<in> set (filter (\<lambda>k. 2 \<le> length (boxes ! k)) [0..<length boxes])"
    by simp
  then show ?thesis by simp
qed

lemma length_split_boxes:
  "length boxes \<le> length (split_boxes n boxes) \<and> length (split_boxes n boxes) \<le> length boxes + n"
proof (induction n arbitrary: boxes)
  case 0
  show ?case by simp
next
  case (Suc n)
  show ?case
  proof (cases "pick_box boxes")
    case None
    then show ?thesis by simp
  next
    case (Some k)
    then have k: "k < length boxes" by (rule pick_box_less)
    obtain lo hi where s: "split_box (boxes ! k) = (lo, hi)" by (cases "split_box (boxes ! k)")
    define b where "b = take k boxes @ [lo, hi] @ drop (Suc k) boxes"
    have len: "length b = length boxes + 1" using k by (simp add: b_def)
    have unf: "split_boxes (Suc n) boxes = split_boxes n b"
      using Some s by (simp add: b_def)
    from Suc.IH [of b]
    have "length b \<le> length (split_boxes n b)" "length (split_boxes n b) \<le> length b + n"
      by simp_all
    with len unf show ?thesis by simp
  qed
qed

lemma hist_add_nonempty: "hist_add key h \<noteq> []"
  by (cases h) (auto split: if_splits)

lemma histogram_nonempty: "pxs \<noteq> [] \<Longrightarrow> histogram opts pxs \<noteq> []"
proof -
  have "fold (\<lambda>px h. hist_add (pack opts px) h) pxs h \<noteq> []" if "pxs \<noteq> [] \<or> h \<noteq> []" for h
    using that by (induction pxs arbitrary: h) (auto simp: hist_add_nonempty)
  then show "pxs \<noteq> [] \<Longrightarrow> histogram opts pxs \<noteq> []" by (simp add: histogram_def)
qed

lemma pixels_of_nonempty: "4 \<le> length pixels \<Longrightarrow> pixels_of pixels \<noteq> []"
  by (cases pixels rule: pixels_of.cases) auto

lemma quantizePalette_example:
  "quantizePalette [255, 0, 0, 255, 0, 255, 0, 255, 0, 0, 255, 255, 0, 0, 255, 255] 2
     \<lparr>qo_format = rgb565, qo_oneBitAlpha = Some True, qo_clearAlpha = True\<rparr>
   = Inr [[0, 0, 248, 255], [124, 126, 0, 255]]"
proof -
  let ?opts = "\<lparr>qo_format = rgb565, qo_oneBitAlpha = Some True, qo_clearAlpha = True\<rparr>"
  let ?members = "[((0, 0, 248, 255), 2), ((0, 252, 0, 255), 1), ((248, 0, 0, 255), 1 :: nat)]"
  have px: "pixels_of [255, 0, 0, 255, 0, 255, 0, 255, 0, 0, 255, 255, 0, 0, 255, 255]
              = [(255, 0, 0, 255), (0, 255, 0, 255), (0, 0, 255, 255), (0, 0, 255, 255)]"
    by simp
  have hist: "histogram ?opts
                [(255, 0, 0, 255), (0, 255, 0, 255), (0, 0, 255, 255), (0, 0, 255, 255)]
              = [(65567, 2), (67552, 1), (129024, 1)]"
    by (simp add: histogram_def pack_def)
  have members: "map (\<lambda>(key, n). (unpack ?opts key, n)) [(65567, 2), (67552, 1), (129024, 1)]
                   = ?members"
    by (simp add: unpack_def)
  have pick: "pick_box [?members] = Some 0"
    by (simp add: pick_box_def)
  have halves: "split_box ?members
                 = ([((0, 0, 248, 255), 2)], [((248, 0, 0, 255), 1), ((0, 252, 0, 255), 1)])"
    by (simp add: split_box_def widest_axis_def axis_range_def axis_value_def population_def
          sort_by_def Let_def)
  have n: "nat 2 - 1 = Suc 0" by simp
  have boxes: "split_boxes (Suc 0) [?members]
                 = [[((0, 0, 248, 255), 2)], [((248, 0, 0, 255), 1), ((0, 252, 0, 255), 1)]]"
    by (simp add: pick halves del: One_nat_def)
  have reps: "map (\<lambda>bx. palette_entry ?opts (representative bx))
                [[((0, 0, 248, 255), 2)], [((248, 0, 0, 255), 1), ((0, 252, 0, 255), 1 :: nat)]]
              = [[0, 0, 248, 255], [124, 126, 0, 255]]"
    by (simp add: representative_def population_def axis_value_def palette_entry_def Let_def
          flip: numeral_2_eq_2)
  show ?thesis
    unfolding quantizePalette_def px hist Let_def members n boxes reps by simp
qed

subsection \<open>Claims\<close>

text \<open>
  Claim C1. For every target between 2 and 256 and every options record: whenever
  \<open>quantizePalette\<close> returns a palette, the palette has at most the target number of
  colours, and at least one colour when the buffer is not empty; it does return a
  palette for every pixel buffer (a buffer of whole pixels, its length a multiple of
  four); and the result depends on the buffer, the target and the options alone.
\<close>

theorem quantizePalette_length:
  assumes "2 \<le> targetColors" and "targetColors \<le> 256"
  shows "(\<forall>palette. quantizePalette pixels targetColors opts = Inr palette \<longrightarrow>
            int (length palette) \<le> targetColors \<and> (pixels \<noteq> [] \<longrightarrow> 1 \<le> length palette))
       \<and> (length pixels mod 4 = 0 \<longrightarrow>
            (\<exists>palette. quantizePalette pixels targetColors opts = Inr palette))
       \<and> (\<forall>pixels' targetColors' opts'.
            pixels' = pixels \<and> targetColors' = targetColors \<and> opts' = opts \<longrightarrow>
            quantizePalette pixels' targetColors' opts' = quantizePalette pixels targetColors opts)"
proof (intro conjI allI impI)
  fix pixels' :: buffer and targetColors' :: int and opts' :: QuantizeOptions
  assume "pixels' = pixels \<and> targetColors' = targetColors \<and> opts' = opts"
  then show "quantizePalette pixels' targetColors' opts' = quantizePalette pixels targetColors opts"
    by simp
next
  assume "length pixels mod 4 = 0"
  then show "\<exists>palette. quantizePalette pixels targetColors opts = Inr palette"
    by (simp add: quantizePalette_def Let_def)
next
  fix palette
  assume q: "quantizePalette pixels targetColors opts = Inr palette"
  then have wf: "length pixels mod 4 = 0"
    by (auto simp: quantizePalette_def split: if_splits)
  let ?hist = "histogram opts (pixels_of pixels)"
  let ?members = "map (\<lambda>(key, n). (unpack opts key, n)) ?hist"
  let ?boxes = "split_boxes (nat targetColors - 1) [?members]"
  show "int (length palette) \<le> targetColors"
  proof (cases "int (length ?hist) \<le> targetColors")
    case True
    with q wf have "length palette = length ?hist" by (auto simp: quantizePalette_def Let_def)
    with True show ?thesis by simp
  next
    case False
    with q wf have "length palette = length ?boxes" by (auto simp: quantizePalette_def Let_def)
    moreover have "length ?boxes \<le> 1 + (nat targetColors - 1)"
      using length_split_boxes [of "[?members]" "nat targetColors - 1"] by simp
    ultimately show ?thesis using assms by simp
  qed
  show "1 \<le> length palette" if ne: "pixels \<noteq> []"
  proof (cases "int (length ?hist) \<le> targetColors")
    case True
    with q wf have len: "length palette = length ?hist"
      by (auto simp: quantizePalette_def Let_def)
    from ne have "0 < length pixels" by simp
    with wf have "4 \<le> length pixels" by presburger
    then have "?hist \<noteq> []" by (intro histogram_nonempty pixels_of_nonempty)
    with len show ?thesis by (cases ?hist) auto
  next
    case False
    with q wf have "length palette = length ?boxes" by (auto simp: quantizePalette_def Let_def)
    moreover have "1 \<le> length ?boxes"
      using length_split_boxes [of "[?members]" "nat targetColors - 1"] by simp
    ultimately show ?thesis by simp
  qed
qed

theorem quantizePalette_length_witness:
  "(2 :: int) \<le> 2 \<and> (2 :: int) \<le> 256
   \<and> quantizePalette [255, 0, 0, 255, 0, 255, 0, 255, 0, 0, 255, 255, 0, 0, 255, 255] 2
        \<lparr>qo_format = rgb565, qo_oneBitAlpha = Some True, qo_clearAlpha = True\<rparr>
      = Inr [[0, 0, 248, 255], [124, 126, 0, 255]]
   \<and> int (length [[0, 0, 248, 255], [124, 126, 0, 255 :: byte]]) \<le> 2
   \<and> 1 \<le> length [[0, 0, 248, 255], [124, 126, 0, 255 :: byte]]"
  using quantizePalette_length
    [of 2 "[255, 0, 0, 255, 0, 255, 0, 255, 0, 0, 255, 255, 0, 0, 255, 255]"
        "\<lparr>qo_format = rgb565, qo_oneBitAlpha = Some True, qo_clearAlpha = True\<rparr>"]
    quantizePalette_example
  by simp

text \<open>
  Claim C2. When the decoded width or height is zero, \<open>convertImage\<close> fails: with
  the zero-dimension error, or with the missing-context error when the canvas yields
  no 2D context. It has drawn on the canvas and released the source and has called
  nothing else: neither \<open>convertGifWithOptions\<close>, nor \<open>convertPng\<close>, nor the canvas
  encoder; no blob is returned.
\<close>

theorem convertImage_zero_dimensions:
  assumes "env_loadImageSource env file = Inr loaded"
    and "ld_width loaded = 0 \<or> ld_height loaded = 0"
  shows "fst (convertImage env lib file config options)
           = (if env_context2d env then Inl ZeroDimensions else Inl NoContext)
       \<and> snd (convertImage env lib file config options) = [Call_drawOnCanvas, Call_release]
       \<and> Call_convertGifWithOptions \<notin> set (snd (convertImage env lib file config options))
       \<and> Call_convertPng \<notin> set (snd (convertImage env lib file config options))
       \<and> (\<forall>mimeType quality.
            Call_encodeCanvas mimeType quality
              \<notin> set (snd (convertImage env lib file config options)))"
  using assms
  by (auto simp: convertImage_def convertImage_try_def drawOnCanvas_def Let_def)

theorem convertImage_zero_dimensions_witness:
  "env_loadImageSource example_env () = Inr \<lparr>ld_pixels = [], ld_width = 0, ld_height = 7\<rparr>
   \<and> fst (convertImage example_env example_lib () (Jpeg (Fin 80)) None) = Inl ZeroDimensions
   \<and> snd (convertImage example_env example_lib () (Jpeg (Fin 80)) None)
       = [Call_drawOnCanvas, Call_release]"
  using convertImage_zero_dimensions
    [of example_env "()" "\<lparr>ld_pixels = [], ld_width = 0, ld_height = 7\<rparr>" example_lib
        "Jpeg (Fin 80)" None]
  by (simp add: example_env_def)

text \<open>
  Claim C3. For every readable canvas, every settings record and every pixel whose
  three colour bytes lie in the bitmap, \<open>applyBoost\<close> returns the canvas in which each
  colour byte of that pixel is the stored value of the channel formula of the
  specification (the value times two to the exposure, blended with the Rec. 709 luma
  by the saturation, blended around 128 by the contrast, plus the brightness, clamped to
  the byte range), evaluated in the arithmetic of the language on the three colour bytes
  of that same pixel. No other pixel enters: on any other readable canvas with the same
  three bytes at that pixel the boost leaves the same three bytes there.
\<close>

theorem applyBoost_per_pixel:
  assumes "ctx_readable ctx" and "4 * p + 2 < length (ctx_bitmap ctx)"
  shows "\<exists>ctx'. applyBoost pow2 ctx width height boost = Inr ctx'
           \<and> (let data = ctx_bitmap ctx;
                   px = (byteval (data ! (4 * p)), byteval (data ! (4 * p + 1)),
                         byteval (data ! (4 * p + 2)))
               in ctx_bitmap ctx' ! (4 * p)
                    = toUint8Clamp (boost_channel_spec pow2 boost px (fst px))
                \<and> ctx_bitmap ctx' ! (4 * p + 1)
                    = toUint8Clamp (boost_channel_spec pow2 boost px (fst (snd px)))
                \<and> ctx_bitmap ctx' ! (4 * p + 2)
                    = toUint8Clamp (boost_channel_spec pow2 boost px (snd (snd px))))
           \<and> (\<forall>other. ctx_readable other \<and> 4 * p + 2 < length (ctx_bitmap other)
                   \<and> ctx_bitmap other ! (4 * p) = ctx_bitmap ctx ! (4 * p)
                   \<and> ctx_bitmap other ! (4 * p + 1) = ctx_bitmap ctx ! (4 * p + 1)
                   \<and> ctx_bitmap other ! (4 * p + 2) = ctx_bitmap ctx ! (4 * p + 2) \<longrightarrow>
                 (\<exists>other'. applyBoost pow2 other width height boost = Inr other'
                    \<and> ctx_bitmap other' ! (4 * p) = ctx_bitmap ctx' ! (4 * p)
                    \<and> ctx_bitmap other' ! (4 * p + 1) = ctx_bitmap ctx' ! (4 * p + 1)
                    \<and> ctx_bitmap other' ! (4 * p + 2) = ctx_bitmap ctx' ! (4 * p + 2)))"
proof -
  let ?ctx' = "ctx\<lparr>ctx_bitmap := applyBoost_pixels pow2 boost (ctx_bitmap ctx)\<rparr>"
  have run: "applyBoost pow2 ctx width height boost = Inr ?ctx'"
    using assms(1) by (rule applyBoost_readable)
  note here = applyBoost_pixels_at [OF assms(2), of pow2 boost]
  have same: "\<exists>other'. applyBoost pow2 other width height boost = Inr other'
                \<and> ctx_bitmap other' ! (4 * p) = ctx_bitmap ?ctx' ! (4 * p)
                \<and> ctx_bitmap other' ! (4 * p + 1) = ctx_bitmap ?ctx' ! (4 * p + 1)
                \<and> ctx_bitmap other' ! (4 * p + 2) = ctx_bitmap ?ctx' ! (4 * p + 2)"
    if o: "ctx_readable other \<and> 4 * p + 2 < length (ctx_bitmap other)
             \<and> ctx_bitmap other ! (4 * p) = ctx_bitmap ctx ! (4 * p)
             \<and> ctx_bitmap other ! (4 * p + 1) = ctx_bitmap ctx ! (4 * p + 1)
             \<and> ctx_bitmap other ! (4 * p + 2) = ctx_bitmap ctx ! (4 * p + 2)" for other
  proof -
    from o have fits: "4 * p + 2 < length (ctx_bitmap other)" by simp
    note there = applyBoost_pixels_at [OF fits, of pow2 boost]
    from o have "applyBoost pow2 other width height boost
                   = Inr (other\<lparr>ctx_bitmap := applyBoost_pixels pow2 boost (ctx_bitmap other)\<rparr>)"
      by (intro applyBoost_readable) simp
    with here there o show ?thesis by simp
  qed
  show ?thesis
    apply (rule exI [of _ ?ctx'])
    using run here same by (simp add: Let_def)
qed

theorem applyBoost_per_pixel_witness:
  "ctx_readable \<lparr>ctx_bitmap = [253, 75, 1, 255], ctx_readable = True\<rparr>
   \<and> 4 * 0 + 2 < length (ctx_bitmap \<lparr>ctx_bitmap = [253, 75, 1, 255], ctx_readable = True\<rparr>)
   \<and> (\<exists>ctx'. applyBoost example_pow2 \<lparr>ctx_bitmap = [253, 75, 1, 255], ctx_readable = True\<rparr> 1 1
                 example_boost = Inr ctx'
          \<and> ctx_bitmap ctx' ! (4 * 0) = 107
          \<and> ctx_bitmap ctx' ! (4 * 0 + 1) = 107
          \<and> ctx_bitmap ctx' ! (4 * 0 + 2) = 107)"
  using applyBoost_per_pixel
    [of "\<lparr>ctx_bitmap = [253, 75, 1, 255], ctx_readable = True\<rparr>" 0 example_pow2 1 1 example_boost]
  by (simp add: boost_channel_spec_example store_example_numeral Let_def
        del: toUint8Clamp.simps) blast

text \<open>
  Claim C4. Let the palette and the indices be what \<open>quantizePalette\<close> and
  \<open>applyPaletteMapping\<close> return for the source buffer in the format without alpha. If
  there is one index per pixel, every index has a palette entry and every entry has its
  three colour channels, then \<open>reduceColors\<close> with \<open>preserveAlpha = false\<close> returns a
  buffer of the length of the source in which every pixel has alpha 255 and the red,
  green and blue of the palette colour chosen for it. In \<open>convertPng\<close> the source
  buffer is the image composited over the background
  (\<open>convertPng_reduces_composited\<close>).
\<close>

theorem reduceColors_opaque:
  fixes lib :: "'blob Imports" and source :: buffer and targetColors :: int
  defines "palette \<equiv> imp_quantizePalette lib source targetColors
                       \<lparr>qo_format = rgb565, qo_oneBitAlpha = Some True, qo_clearAlpha = True\<rparr>"
  defines "indices \<equiv> imp_applyPaletteMapping lib source palette rgb565"
  assumes count: "length indices = length source div 4"
    and valid: "\<forall>ix\<in>set indices. ix < length palette"
    and rgb: "\<forall>c\<in>set palette. 3 \<le> length c"
  shows "\<exists>result. reduceColors lib source targetColors False = Inr result
           \<and> length result = length source
           \<and> (\<forall>p<length source div 4.
                  result ! (4 * p + 3) = 255
                \<and> result ! (4 * p) = palette ! (indices ! p) ! 0
                \<and> result ! (4 * p + 1) = palette ! (indices ! p) ! 1
                \<and> result ! (4 * p + 2) = palette ! (indices ! p) ! 2)"
proof -
  from reduceColors_loop_opaque [OF valid, of source 0 "replicate (length source) 0"]
  obtain r where r: "reduceColors_loop palette source False indices 0
                       (replicate (length source) 0) = Inr r"
    and len: "length r = length source"
    and px: "\<forall>k<length indices. 4 * k + 3 < length source \<longrightarrow>
                  r ! (4 * k) = channel (palette ! (indices ! k)) 0
                \<and> r ! (4 * k + 1) = channel (palette ! (indices ! k)) 1
                \<and> r ! (4 * k + 2) = channel (palette ! (indices ! k)) 2
                \<and> r ! (4 * k + 3) = 255"
    by auto
  have run: "reduceColors lib source targetColors False = Inr r"
    using r by (simp add: reduceColors_def palette_def indices_def Let_def)
  have "r ! (4 * p + 3) = 255
      \<and> r ! (4 * p) = palette ! (indices ! p) ! 0
      \<and> r ! (4 * p + 1) = palette ! (indices ! p) ! 1
      \<and> r ! (4 * p + 2) = palette ! (indices ! p) ! 2"
    if p: "p < length source div 4" for p
  proof -
    from p have fits: "4 * p + 3 < length source" by simp
    from p count have k: "p < length indices" by simp
    then have "indices ! p \<in> set indices" by simp
    with valid have "indices ! p < length palette" by blast
    then have "palette ! (indices ! p) \<in> set palette" by simp
    with rgb have "3 \<le> length (palette ! (indices ! p))" by blast
    then have "0 < length (palette ! (indices ! p))" "1 < length (palette ! (indices ! p))"
      "2 < length (palette ! (indices ! p))"
      by arith+
    then have "channel (palette ! (indices ! p)) 0 = palette ! (indices ! p) ! 0"
      "channel (palette ! (indices ! p)) 1 = palette ! (indices ! p) ! 1"
      "channel (palette ! (indices ! p)) 2 = palette ! (indices ! p) ! 2"
      unfolding channel_def by simp_all
    with px k fits show ?thesis by simp
  qed
  with run len show ?thesis by blast
qed

theorem reduceColors_opaque_witness:
  "length (imp_applyPaletteMapping example_lib [10, 20, 30, 40]
             [[0, 0, 0, 255], [255, 255, 255, 255]] rgb565)
     = length [10, 20, 30, 40 :: byte] div 4
   \<and> reduceColors example_lib [10, 20, 30, 40] 2 False = Inr [255, 255, 255, 255]"
  using reduceColors_opaque [of example_lib "[10, 20, 30, 40]" 2]
  by (simp add: example_lib_def reduceColors_def Let_def channel_def)

text \<open>
  Claim C5. For every options record whose colour count lies outside the range from 2
  to 256, the count that \<open>convertPng\<close> hands to colour reduction and to the PNG encoder
  is the clamped one, which lies in the range; the conversion is the conversion of the
  same options with the clamped count, and no branch of it fails because of the count:
  above 256 it returns the encoded blob, below 2 it reduces to two colours.
\<close>

theorem convertPng_clamps_colorCount:
  assumes "png_colorCount options < 2 \<or> 256 < png_colorCount options"
  shows "2 \<le> ensureColorCount (png_colorCount options)
       \<and> ensureColorCount (png_colorCount options) \<le> 256
       \<and> convertPng lib imageData options =
           convertPng lib imageData
             (options\<lparr>png_colorCount := ensureColorCount (png_colorCount options)\<rparr>)
       \<and> convertPng lib imageData options =
           (let data = (if png_preserveAlpha options then id_data imageData
                        else imp_applyBackground lib (id_data imageData)
                               (imp_parseHexColor lib (png_backgroundColor options)));
                clamped = ensureColorCount (png_colorCount options)
            in if \<not> png_reduceColors options then
                 Inr (imp_UPNG_encode lib data (id_width imageData) (id_height imageData) 0
                        (png_interlaced options))
               else if 256 < png_colorCount options then
                 Inr (imp_UPNG_encode lib data (id_width imageData) (id_height imageData) clamped
                        (png_interlaced options))
               else
                 (case reduceColors lib data clamped (png_preserveAlpha options) of
                    Inl e \<Rightarrow> Inl e
                  | Inr processed \<Rightarrow>
                      Inr (imp_UPNG_encode lib processed (id_width imageData)
                             (id_height imageData) clamped (png_interlaced options))))"
  using assms
  by (auto simp: convertPng_def ensureColorCount_def Let_def split: sum.split)

theorem convertPng_clamps_colorCount_witness:
  "256 < png_colorCount example_png_options
   \<and> ensureColorCount (png_colorCount example_png_options) = 256
   \<and> convertPng example_lib \<lparr>id_data = [10, 20, 30, 40], id_width = 1, id_height = 1\<rparr>
         example_png_options = Inr [10, 20, 30, 40]"
proof -
  have outside: "png_colorCount example_png_options < 2 \<or> 256 < png_colorCount example_png_options"
    by (simp add: example_png_options_def)
  note clamped = convertPng_clamps_colorCount
    [OF outside, of example_lib "\<lparr>id_data = [10, 20, 30, 40], id_width = 1, id_height = 1\<rparr>"]
  from clamped [THEN conjunct2, THEN conjunct2, THEN conjunct2] show ?thesis
    by (simp add: example_png_options_def example_lib_def ensureColorCount_def Let_def)
qed

text \<open>
  Claim C6. In every host and every state of the cache \<open>getOutputFormatSupport\<close> reports
  PNG and GIF as supported; the JPEG and WebP entries are the answers of the canvas probe
  \<open>supportsCanvasEncoding\<close> for their mime types.
\<close>

theorem getOutputFormatSupport_png_gif:
  "png (fst (getOutputFormatSupport host st)) = True
   \<and> gif (fst (getOutputFormatSupport host st)) = True
   \<and> jpeg (fst (getOutputFormatSupport host st)) = fst (supportsCanvasEncoding host ''image/jpeg'' st)
   \<and> webp (fst (getOutputFormatSupport host st)) =
       fst (supportsCanvasEncoding host ''image/webp''
              (snd (supportsCanvasEncoding host ''image/jpeg'' st)))"
  by (simp add: getOutputFormatSupport_def split: prod.split)

text \<open>The JPEG entry does depend on the host: two hosts that differ in it.\<close>

lemma getOutputFormatSupport_host_dependent:
  "jpeg (fst (getOutputFormatSupport host_png_only initialProbeState)) = False
   \<and> jpeg (fst (getOutputFormatSupport host_all_formats initialProbeState)) = True"
  by (simp add: getOutputFormatSupport_def supportsCanvasEncoding_def initialProbeState_def
        host_png_only_def host_all_formats_def startsWith_def Let_def split: prod.split)






text \<open>
  Claim C9. With the default settings (exposure 0, saturation 1, contrast 1, brightness 0)
  the boost leaves every byte of the pixel data of an image (four bytes per pixel) as
  it was, whatever the exponentiation of the engine.
\<close>

theorem applyBoost_default_identity:
  "length data mod 4 = 0 \<Longrightarrow> applyBoost_pixels pow2 defaultBoost data = data"
  unfolding applyBoost_pixels_def by (rule applyBoost_loop_default) simp

theorem applyBoost_default_identity_witness:
  "length [10, 20, 30, 255 :: byte] mod 4 = 0
   \<and> applyBoost_pixels example_pow2 defaultBoost [10, 20, 30, 255] = [10, 20, 30, 255]"
  using applyBoost_default_identity [of "[10, 20, 30, 255]" example_pow2] by simp

text \<open>
  Claim C10. For every buffer and every settings record the boost keeps the length of
  the pixel data and leaves every byte at an index congruent to 3 modulo 4 (the alpha
  byte of each pixel) unchanged.
\<close>

theorem applyBoost_alpha_unchanged:
  "length (applyBoost_pixels pow2 boost data) = length data
   \<and> (\<forall>j. j < length data \<and> j mod 4 = 3 \<longrightarrow> applyBoost_pixels pow2 boost data ! j = data ! j)"
  unfolding applyBoost_pixels_def by (simp add: applyBoost_loop_other)

theorem applyBoost_alpha_unchanged_witness:
  "(3 :: nat) < length [10, 20, 30, 77 :: byte] \<and> (3 :: nat) mod 4 = 3
   \<and> applyBoost_pixels example_pow2
         \<lparr>exposure = Fin 1, saturation = Fin 2, contrast = Fin (3 / 2), brightness = Fin 50\<rparr>
         [10, 20, 30, 77] ! 3 = 77"
  using applyBoost_alpha_unchanged
    [of example_pow2 "\<lparr>exposure = Fin 1, saturation = Fin 2, contrast = Fin (3 / 2), brightness = Fin 50\<rparr>"
        "[10, 20, 30, 77]"]
  by simp

end
